theory Spec2Isabelle
  imports Complex_Main "HOL-Library.Log_Nat"
begin

section \<open>JavaScript numbers\<close>

text \<open>
  Both programs compute with JavaScript numbers, which are IEEE 754 binary64 values. A
  number is modelled as a finite rational value \<open>Num x\<close>, one of the two infinities, or
  \<open>NaN\<close>. Every arithmetic operation computes the exact rational result and rounds it to
  the nearest binary64 value, ties to even (\<open>round_double\<close>): 53 significant bits, the
  smallest exponent of a normal number is \<open>-1022\<close> (below it the spacing stays
  \<open>2 ^ -1074\<close>), and a rounded magnitude of \<open>2 ^ 1024\<close> or more is infinite.

  The model has one zero, standing for \<open>+0\<close>: the programs divide only by counters, which
  start at \<open>0\<close> and are only ever incremented, so \<open>-0\<close> never reaches a division.
\<close>

datatype jsnum = Num rat | PInf | NInf | NaN

definition pow2 :: "int \<Rightarrow> rat" where
  "pow2 e = (if 0 \<le> e then 2 ^ nat e else 1 / 2 ^ nat (- e))"

definition round_half_even :: "rat \<Rightarrow> int" where
  "round_half_even x =
     (let f = \<lfloor>x\<rfloor>; d = x - of_int f
      in if d < 1 / 2 then f
         else if 1 / 2 < d then f + 1
         else if even f then f else f + 1)"

text \<open>\<open>ilog2 x\<close> is the binary exponent \<open>\<lfloor>log\<^sub>2 x\<rfloor>\<close> of a positive rational.\<close>

definition ilog2 :: "rat \<Rightarrow> int" where
  "ilog2 x = (if 1 \<le> x then int (floorlog 2 (nat \<lfloor>x\<rfloor>)) - 1
              else - int (floorlog 2 (nat \<lceil>1 / x\<rceil> - 1)))"

definition round_pos :: "rat \<Rightarrow> jsnum" where
  "round_pos x =
     (let q = max (ilog2 x) (- 1022) - 52;
          r = of_int (round_half_even (x / pow2 q)) * pow2 q
      in if pow2 1024 \<le> r then PInf else Num r)"

fun js_neg :: "jsnum \<Rightarrow> jsnum" where
  "js_neg (Num x) = Num (- x)"
| "js_neg PInf = NInf"
| "js_neg NInf = PInf"
| "js_neg NaN = NaN"

definition round_double :: "rat \<Rightarrow> jsnum" where
  "round_double x =
     (if x = 0 then Num 0
      else if 0 < x then round_pos x
      else js_neg (round_pos (- x)))"

text \<open>
  The operators the programs use: \<open>+\<close>, \<open>-\<close>, \<open>*\<close>, \<open>/\<close>, \<open>Math.ceil\<close>, \<open>Math.max\<close>,
  \<open>Math.min\<close>, \<open><\<close> and \<open>>\<close>. A comparison with \<open>NaN\<close> is false.
\<close>

fun js_add :: "jsnum \<Rightarrow> jsnum \<Rightarrow> jsnum" where
  "js_add (Num a) (Num b) = round_double (a + b)"
| "js_add NaN _ = NaN"
| "js_add _ NaN = NaN"
| "js_add PInf NInf = NaN"
| "js_add NInf PInf = NaN"
| "js_add PInf _ = PInf"
| "js_add _ PInf = PInf"
| "js_add NInf _ = NInf"
| "js_add _ NInf = NInf"

definition js_sub :: "jsnum \<Rightarrow> jsnum \<Rightarrow> jsnum" where
  "js_sub a b = js_add a (js_neg b)"

fun js_mul :: "jsnum \<Rightarrow> jsnum \<Rightarrow> jsnum" where
  "js_mul (Num a) (Num b) = round_double (a * b)"
| "js_mul NaN _ = NaN"
| "js_mul _ NaN = NaN"
| "js_mul (Num a) PInf = (if a = 0 then NaN else if 0 < a then PInf else NInf)"
| "js_mul (Num a) NInf = (if a = 0 then NaN else if 0 < a then NInf else PInf)"
| "js_mul PInf (Num b) = (if b = 0 then NaN else if 0 < b then PInf else NInf)"
| "js_mul NInf (Num b) = (if b = 0 then NaN else if 0 < b then NInf else PInf)"
| "js_mul PInf PInf = PInf"
| "js_mul NInf NInf = PInf"
| "js_mul PInf NInf = NInf"
| "js_mul NInf PInf = NInf"

fun js_div :: "jsnum \<Rightarrow> jsnum \<Rightarrow> jsnum" where
  "js_div (Num a) (Num b) =
     (if b = 0 then (if a = 0 then NaN else if 0 < a then PInf else NInf)
      else round_double (a / b))"
| "js_div NaN _ = NaN"
| "js_div _ NaN = NaN"
| "js_div (Num a) PInf = Num 0"
| "js_div (Num a) NInf = Num 0"
| "js_div PInf (Num b) = (if 0 \<le> b then PInf else NInf)"
| "js_div NInf (Num b) = (if 0 \<le> b then NInf else PInf)"
| "js_div PInf PInf = NaN"
| "js_div PInf NInf = NaN"
| "js_div NInf PInf = NaN"
| "js_div NInf NInf = NaN"

fun js_ceil :: "jsnum \<Rightarrow> jsnum" where
  "js_ceil (Num x) = Num (of_int \<lceil>x\<rceil>)"
| "js_ceil v = v"

fun js_max :: "jsnum \<Rightarrow> jsnum \<Rightarrow> jsnum" where
  "js_max NaN _ = NaN"
| "js_max _ NaN = NaN"
| "js_max PInf _ = PInf"
| "js_max _ PInf = PInf"
| "js_max NInf v = v"
| "js_max v NInf = v"
| "js_max (Num a) (Num b) = Num (max a b)"

fun js_min :: "jsnum \<Rightarrow> jsnum \<Rightarrow> jsnum" where
  "js_min NaN _ = NaN"
| "js_min _ NaN = NaN"
| "js_min NInf _ = NInf"
| "js_min _ NInf = NInf"
| "js_min PInf v = v"
| "js_min v PInf = v"
| "js_min (Num a) (Num b) = Num (min a b)"

fun js_lt :: "jsnum \<Rightarrow> jsnum \<Rightarrow> bool" where
  "js_lt NaN _ = False"
| "js_lt _ NaN = False"
| "js_lt (Num a) (Num b) = (a < b)"
| "js_lt _ NInf = False"
| "js_lt PInf _ = False"
| "js_lt NInf _ = True"
| "js_lt _ PInf = True"

definition js_gt :: "jsnum \<Rightarrow> jsnum \<Rightarrow> bool" where
  "js_gt a b = js_lt b a"

text \<open>
  Reading \<open>xs[v]\<close> for a number \<open>v\<close>: the element when \<open>v\<close> is an integer index inside the
  array, and \<open>undefined\<close> (here \<open>None\<close>) otherwise.
\<close>

definition array_get :: "'a list \<Rightarrow> jsnum \<Rightarrow> 'a option" where
  "array_get xs v =
     (case v of
        Num i \<Rightarrow> if i = of_int \<lfloor>i\<rfloor> \<and> 0 \<le> i \<and> i < of_nat (length xs)
                 then Some (xs ! nat \<lfloor>i\<rfloor>) else None
      | _ \<Rightarrow> None)"

section \<open>Numbers as text\<close>

text \<open>
  \<open>String(n)\<close> of a non-negative integer: its decimal digits, most significant first,
  with no leading zero.
\<close>

definition digit_char :: "nat \<Rightarrow> char" where
  "digit_char d = ''0123456789'' ! d"

fun nat_toString :: "nat \<Rightarrow> string" where
  "nat_toString n =
     (if n < 10 then [digit_char n]
      else nat_toString (n div 10) @ [digit_char (n mod 10)])"

declare nat_toString.simps [simp del]

text \<open>
  \<open>x.toFixed(2)\<close>, following ECMAScript's \<open>Number.prototype.toFixed\<close>: a number that is
  not finite gives its name; otherwise \<open>n\<close> is the integer nearest to \<open>100 * |x|\<close> (the
  larger one at a tie), its digits are padded with zeros on the left to three characters
  and a point is put before the last two. Magnitudes of \<open>10 ^ 21\<close> and more are written by
  the built-in conversion of a number to a string, which is no part of the repository and
  is the parameter \<open>toString\<close> here.
\<close>

definition toFixed2 :: "(rat \<Rightarrow> string) \<Rightarrow> jsnum \<Rightarrow> string" where
  "toFixed2 toString v =
     (case v of
        NaN \<Rightarrow> ''NaN''
      | PInf \<Rightarrow> ''Infinity''
      | NInf \<Rightarrow> ''-Infinity''
      | Num x \<Rightarrow>
          (let s = (if x < 0 then ''-'' else '''');
               a = \<bar>x\<bar>
           in if 10 ^ 21 \<le> a then s @ toString a
              else let n = nat \<lfloor>a * 100 + 1 / 2\<rfloor>;
                       m = nat_toString n;
                       m = (if length m \<le> 2 then replicate (3 - length m) CHR ''0'' @ m else m);
                       k = length m
                   in s @ take (k - 2) m @ ''.'' @ drop (k - 2) m))"

text \<open>
  Rounding to two decimal places as the specification means it: the nearest multiple of
  \<open>1/100\<close>, a tie going away from zero.
\<close>

definition round2 :: "rat \<Rightarrow> rat" where
  "round2 x = (if x < 0 then - 1 else 1) * of_int \<lfloor>\<bar>x\<bar> * 100 + 1 / 2\<rfloor> / 100"

text \<open>
  Reading a decimal numeral back, to say what number a \<open>toFixed\<close> text denotes:
  \<open>decimal_value\<close> accepts an optional minus sign, digits, a point and digits.
\<close>

definition digit_value :: "char \<Rightarrow> nat option" where
  "digit_value c = (if c \<in> set ''0123456789'' then Some (of_char c - 48) else None)"

fun digits_value :: "string \<Rightarrow> nat \<Rightarrow> nat option" where
  "digits_value [] acc = Some acc"
| "digits_value (c # cs) acc =
     (case digit_value c of None \<Rightarrow> None | Some d \<Rightarrow> digits_value cs (10 * acc + d))"

definition unsigned_decimal_value :: "string \<Rightarrow> rat option" where
  "unsigned_decimal_value s =
     (let ip = takeWhile (\<lambda>c. c \<noteq> CHR ''.'') s;
          fp = drop (length ip + 1) s
      in if ip = [] \<or> length ip = length s \<or> fp = [] then None
         else case (digits_value ip 0, digits_value fp 0) of
                (Some i, Some f) \<Rightarrow> Some (of_nat i + of_nat f / 10 ^ length fp)
              | _ \<Rightarrow> None)"

definition decimal_value :: "string \<Rightarrow> rat option" where
  "decimal_value s =
     (case s of
        [] \<Rightarrow> None
      | c # cs \<Rightarrow> if c = CHR ''-'' then map_option uminus (unsigned_decimal_value cs)
                 else unsigned_decimal_value s)"

section \<open>The load generator (\<open>loadtest.js\<close>)\<close>

subsection \<open>The metrics accumulator\<close>

text \<open>
  The object \<open>metrics\<close>. The three counters are non-negative integers far below
  \<open>2 ^ 53\<close>, where JavaScript counts exactly, so they are natural numbers here. A latency
  is a finite number of milliseconds. \<open>minLatency\<close> starts at \<open>Infinity\<close>. The objects
  \<open>statusCodes\<close> and \<open>errors\<close> are maps from a key to a count; a key that names a member
  of \<open>Object.prototype\<close> (such as \<open>constructor\<close>) is outside this model.
\<close>

record lg_metrics =
  totalRequests :: nat
  successfulRequests :: nat
  failedRequests :: nat
  totalLatency :: jsnum
  minLatency :: jsnum
  maxLatency :: jsnum
  latencies :: "rat list"
  statusCodes :: "string \<rightharpoonup> nat"
  errors :: "string \<rightharpoonup> nat"

definition metrics_init :: lg_metrics where
  "metrics_init =
     \<lparr>totalRequests = 0, successfulRequests = 0, failedRequests = 0,
      totalLatency = Num 0, minLatency = PInf, maxLatency = Num 0,
      latencies = [], statusCodes = Map.empty, errors = Map.empty\<rparr>"

text \<open>\<open>counts[k] = (counts[k] || 0) + 1\<close>\<close>

definition or0 :: "nat option \<Rightarrow> nat" where
  "or0 c = (case c of None \<Rightarrow> 0 | Some n \<Rightarrow> n)"

definition bump :: "(string \<rightharpoonup> nat) \<Rightarrow> string \<Rightarrow> (string \<rightharpoonup> nat)" where
  "bump counts k = counts(k \<mapsto> or0 (counts k) + 1)"

subsection \<open>The three listeners of a request\<close>

text \<open>
  \<open>makeRequest\<close> registers three listeners: for the end of the response, for an error of
  the request and for its timeout. Each of them records into \<open>metrics\<close> and resolves the
  promise. A \<open>completion\<close> is one run of one listener: the response ended with a status
  code after a latency, the request emitted an error object (its \<open>code\<close>, which may be
  absent, and its \<open>message\<close>), or the 30 second timeout fired.
\<close>

datatype completion =
    ResponseEnd nat rat
  | RequestError "string option" string
  | RequestTimeout

definition on_end :: "nat \<Rightarrow> rat \<Rightarrow> lg_metrics \<Rightarrow> lg_metrics" where
  "on_end statusCode latencyMs m =
     (let m = m\<lparr>totalRequests := totalRequests m + 1,
                 totalLatency := js_add (totalLatency m) (Num latencyMs),
                 latencies := latencies m @ [latencyMs],
                 minLatency := js_min (minLatency m) (Num latencyMs),
                 maxLatency := js_max (maxLatency m) (Num latencyMs),
                 statusCodes := bump (statusCodes m) (nat_toString statusCode)\<rparr>
      in if 200 \<le> statusCode \<and> statusCode < 400
         then m\<lparr>successfulRequests := successfulRequests m + 1\<rparr>
         else m\<lparr>failedRequests := failedRequests m + 1\<rparr>)"

text \<open>\<open>err.code || err.message\<close>: the code unless it is absent or empty.\<close>

definition errorType :: "string option \<Rightarrow> string \<Rightarrow> string" where
  "errorType code message =
     (case code of None \<Rightarrow> message | Some c \<Rightarrow> if c = [] then message else c)"

definition on_error :: "string option \<Rightarrow> string \<Rightarrow> lg_metrics \<Rightarrow> lg_metrics" where
  "on_error code message m =
     m\<lparr>totalRequests := totalRequests m + 1,
       failedRequests := failedRequests m + 1,
       errors := bump (errors m) (errorType code message)\<rparr>"

definition on_timeout :: "lg_metrics \<Rightarrow> lg_metrics" where
  "on_timeout m =
     m\<lparr>totalRequests := totalRequests m + 1,
       failedRequests := failedRequests m + 1,
       errors := bump (errors m) ''TIMEOUT''\<rparr>"

text \<open>One run of one listener.\<close>

fun listener :: "completion \<Rightarrow> lg_metrics \<Rightarrow> lg_metrics" where
  "listener (ResponseEnd statusCode latencyMs) m = on_end statusCode latencyMs m"
| "listener (RequestError code message) m = on_error code message m"
| "listener RequestTimeout m = on_timeout m"

text \<open>The kind under which a completion is counted in \<open>errors\<close>, if it is counted there.\<close>

fun error_kind :: "completion \<Rightarrow> string option" where
  "error_kind (ResponseEnd statusCode latencyMs) = None"
| "error_kind (RequestError code message) = Some (errorType code message)"
| "error_kind RequestTimeout = Some ''TIMEOUT''"

text \<open>
  The listeners of all requests run one at a time on the single JavaScript thread, so a
  run records its completions in some order, starting from the initial object.
\<close>

definition record_all :: "completion list \<Rightarrow> lg_metrics" where
  "record_all cs = foldl (\<lambda>m c. listener c m) metrics_init cs"

subsection \<open>One request: \<open>makeRequest\<close>\<close>

text \<open>
  What becomes of a request is decided by the network and is an input of the model: a
  response arrived and ended, the request failed with an error, or no response began
  within 30 seconds. For a response and for an error one listener runs. On a timeout
  the timeout listener runs and calls \<open>req.destroy()\<close>; Node then emits \<open>error\<close> on the
  destroyed request, with the code \<open>ECONNRESET\<close> and the message \<open>socket hang up\<close>, so
  the error listener of the same request runs as well. The promise is resolved by the
  first listener and is never rejected.
\<close>

datatype outcome =
    Responded nat rat
  | Failed "string option" string
  | TimedOut

fun listeners_run :: "outcome \<Rightarrow> completion list" where
  "listeners_run (Responded statusCode latencyMs) = [ResponseEnd statusCode latencyMs]"
| "listeners_run (Failed code message) = [RequestError code message]"
| "listeners_run TimedOut =
     [RequestTimeout, RequestError (Some ''ECONNRESET'') ''socket hang up'']"

definition makeRequest :: "outcome \<Rightarrow> lg_metrics \<Rightarrow> lg_metrics" where
  "makeRequest out m = foldl (\<lambda>m c. listener c m) m (listeners_run out)"

subsection \<open>The issuing loop: \<open>worker\<close>\<close>

text \<open>
  \<open>while (running && Date.now() < endTime) { await makeRequest(); ... }\<close>, where
  \<open>running\<close> is true until every loop has ended. An iteration reads the clock and, when
  the end time is not reached, issues one request, waits for its promise and then
  sleeps for the delay between requests; the second listener of a request that timed
  out runs during that sleep. The clock readings and the outcomes of the requests are
  the script the loop runs against; \<open>endTime\<close> is a JavaScript number, since it is
  computed from the \<open>--duration\<close> argument.
\<close>

fun worker :: "jsnum \<Rightarrow> (nat \<times> outcome) list \<Rightarrow> lg_metrics \<Rightarrow> lg_metrics" where
  "worker endTime [] m = m"
| "worker endTime ((now, out) # script) m =
     (if js_lt (Num (of_nat now)) endTime then worker endTime script (makeRequest out m) else m)"

subsection \<open>Percentiles\<close>

definition calculatePercentile :: "rat list \<Rightarrow> jsnum \<Rightarrow> rat option" where
  "calculatePercentile sortedArray percentile =
     (if length sortedArray = 0 then Some 0
      else let index = js_sub (js_ceil (js_mul (js_div percentile (Num 100))
                                               (Num (of_nat (length sortedArray)))))
                              (Num 1)
           in array_get sortedArray (js_max (Num 0) index))"

text \<open>
  The nearest-rank percentile as the specification words it, in exact arithmetic: the
  value at index \<open>ceil(p/100 * n) - 1\<close>, clamped to \<open>0\<close>, of the sorted samples, and \<open>0\<close>
  when there is no sample.
\<close>

definition nearest_rank :: "rat list \<Rightarrow> nat \<Rightarrow> rat" where
  "nearest_rank xs p =
     xs ! nat (max 0 (\<lceil>rat_of_nat p / 100 * rat_of_nat (length xs)\<rceil> - 1))"

definition percentile_of :: "rat list \<Rightarrow> nat \<Rightarrow> rat" where
  "percentile_of samples p = (if samples = [] then 0 else nearest_rank (sort samples) p)"

subsection \<open>The report and the exit code: \<open>runLoadTest\<close>\<close>

definition successRate :: "lg_metrics \<Rightarrow> jsnum" where
  "successRate m =
     js_mul (js_div (Num (of_nat (successfulRequests m))) (Num (of_nat (totalRequests m))))
            (Num 100)"

definition connectionErrors :: "lg_metrics \<Rightarrow> nat" where
  "connectionErrors m =
     or0 (errors m ''ECONNREFUSED'') + or0 (errors m ''ECONNRESET'') + or0 (errors m ''TIMEOUT'')"

text \<open>A validation check; its \<open>value\<close> text is only printed and is left out.\<close>

record check =
  name :: string
  passed :: bool

definition checks :: "lg_metrics \<Rightarrow> rat \<Rightarrow> rat \<Rightarrow> check list" where
  "checks m p95 p99 =
     [\<lparr>name = ''Success Rate > 99%'', passed = js_gt (successRate m) (Num 99)\<rparr>,
      \<lparr>name = ''P95 Latency < 500ms'', passed = (p95 < 500)\<rparr>,
      \<lparr>name = ''P99 Latency < 1000ms'', passed = (p99 < 1000)\<rparr>,
      \<lparr>name = ''No Connection Errors'', passed = (connectionErrors m = 0)\<rparr>]"

text \<open>\<open>let allPassed = true; for (const check of checks) if (!check.passed) allPassed = false;\<close>\<close>

fun allPassed :: "check list \<Rightarrow> bool \<Rightarrow> bool" where
  "allPassed [] acc = acc"
| "allPassed (c # cs) acc = allPassed cs (if \<not> passed c then False else acc)"

text \<open>
  What \<open>runLoadTest\<close> does once the loops have ended. The phase before it either ended
  with the metrics or threw (for instance \<open>http.get\<close> refusing the URL), which rejects the
  promise of \<open>runLoadTest\<close>. The report calls \<open>toFixed\<close> on the three percentiles, which
  throws a \<open>TypeError\<close> on \<open>undefined\<close>. The result is the argument of \<open>process.exit\<close>.
\<close>

datatype js_exception = TypeError | Thrown string

definition report :: "lg_metrics \<Rightarrow> js_exception + nat" where
  "report m =
     (let sorted = sort (latencies m);
          p50 = calculatePercentile sorted (Num 50);
          p95 = calculatePercentile sorted (Num 95);
          p99 = calculatePercentile sorted (Num 99)
      in case (p50, p95, p99) of
           (Some v50, Some v95, Some v99) \<Rightarrow>
             Inr (if allPassed (checks m v95 v99) True then 0 else 1)
         | _ \<Rightarrow> Inl TypeError)"

definition runLoadTest :: "js_exception + lg_metrics \<Rightarrow> js_exception + nat" where
  "runLoadTest phase = (case phase of Inl e \<Rightarrow> Inl e | Inr m \<Rightarrow> report m)"

text \<open>\<open>runLoadTest().catch(err => { ...; process.exit(1); })\<close>\<close>

definition exit_code :: "js_exception + lg_metrics \<Rightarrow> nat" where
  "exit_code phase = (case runLoadTest phase of Inl err \<Rightarrow> 1 | Inr c \<Rightarrow> c)"

section \<open>The clustered server\<close>

subsection \<open>The worker's request handler\<close>

text \<open>
  The object \<open>metrics\<close> of a worker; its field \<open>errors\<close> is \<open>errors_srv\<close> here, the name
  \<open>errors\<close> being taken by the load generator's record. Times of \<open>Date.now()\<close> are integers
  of milliseconds.
\<close>

record srv_metrics =
  requestCount :: nat
  totalResponseTime :: jsnum
  startTime :: int
  errors_srv :: nat

text \<open>
  A request, as far as the handler reads it: \<open>req.url\<close> and the header
  \<open>accept-encoding\<close>, which may be absent. A response: the status code, the headers set
  with \<open>setHeader\<close>, and what was passed to \<open>res.end\<close>: the object given to
  \<open>JSON.stringify\<close> (field names with their values, in order), a text, or a buffer of
  bytes.
\<close>

record request =
  url :: string
  accept_encoding :: "string option"

datatype json = JString string | JNumber jsnum

datatype header_value = HString string | HNumber nat

datatype content = Json "(string \<times> json) list" | Text string | Buffer string

record response =
  statusCode :: nat
  headers :: "string \<rightharpoonup> header_value"
  body :: content

text \<open>
  The two buffers made when the worker starts. The page text and \<open>zlib.gzipSync\<close> are
  inputs: \<open>htmlBuffer\<close> holds the bytes of the page and \<open>compressedHtml\<close> what \<open>gzipSync\<close>
  returns for them.
\<close>

record payload =
  htmlBuffer :: string
  compressedHtml :: string

definition make_payload :: "(string \<Rightarrow> string) \<Rightarrow> string \<Rightarrow> payload" where
  "make_payload gzipSync html = \<lparr>htmlBuffer = html, compressedHtml = gzipSync html\<rparr>"

text \<open>
  What the handler reads from its surroundings: the process id, \<open>Date.now()\<close>, and the
  two readings of \<open>process.hrtime.bigint()\<close> in nanoseconds.
\<close>

record env =
  pid :: nat
  now :: int
  hr_start :: int
  hr_end :: int

text \<open>\<open>String(i)\<close> of an integer.\<close>

definition int_toString :: "int \<Rightarrow> string" where
  "int_toString i =
     (if 0 \<le> i then nat_toString (nat i) else CHR ''-'' # nat_toString (nat (- i)))"

text \<open>\<open>s.includes(pat)\<close>: \<open>pat\<close> occurs in \<open>s\<close> as a contiguous piece.\<close>

fun includes_str :: "string \<Rightarrow> string \<Rightarrow> bool" where
  "includes_str [] pat = (pat = [])"
| "includes_str (c # cs) pat = (take (length pat) (c # cs) = pat \<or> includes_str cs pat)"

text \<open>
  \<open>metrics.requestCount > 0 ? (metrics.totalResponseTime / metrics.requestCount).toFixed(2) : 0\<close>:
  a text when there were requests, the number \<open>0\<close> otherwise.
\<close>

definition avgResponseTime :: "(rat \<Rightarrow> string) \<Rightarrow> srv_metrics \<Rightarrow> json" where
  "avgResponseTime toString m =
     (if 0 < requestCount m
      then JString (toFixed2 toString
             (js_div (totalResponseTime m) (Num (of_nat (requestCount m)))))
      else JNumber (Num 0))"

definition health :: "(rat \<Rightarrow> string) \<Rightarrow> env \<Rightarrow> srv_metrics \<Rightarrow> response" where
  "health toString e m =
     (let uptime = now e - startTime m
      in \<lparr>statusCode = 200,
          headers = [''Content-Type'' \<mapsto> HString ''application/json'',
                     ''Cache-Control'' \<mapsto> HString ''no-cache, no-store, must-revalidate''],
          body = Json [(''status'', JString ''healthy''),
                       (''worker'', JNumber (Num (of_nat (pid e)))),
                       (''uptime_ms'', JNumber (Num (of_int uptime))),
                       (''requests_handled'', JNumber (Num (of_nat (requestCount m)))),
                       (''avg_response_time_ms'', avgResponseTime toString m),
                       (''errors'', JNumber (Num (of_nat (errors_srv m))))]\<rparr>)"

definition label :: "env \<Rightarrow> string" where
  "label e = ''{worker='' @ [CHR 0x22] @ nat_toString (pid e) @ [CHR 0x22] @ ''} ''"

definition metrics_text :: "(rat \<Rightarrow> string) \<Rightarrow> env \<Rightarrow> srv_metrics \<Rightarrow> response" where
  "metrics_text toString e m =
     (let uptime = now e - startTime m;
          nl = [CHR 0x0A]
      in \<lparr>statusCode = 200,
          headers = [''Content-Type'' \<mapsto> HString ''text/plain'',
                     ''Cache-Control'' \<mapsto> HString ''no-cache, no-store, must-revalidate''],
          body = Text (
            ''# HELP http_requests_total Total HTTP requests handled'' @ nl @
            ''# TYPE http_requests_total counter'' @ nl @
            ''http_requests_total'' @ label e @ nat_toString (requestCount m) @ nl @
            nl @
            ''# HELP http_response_time_avg_ms Average response time in milliseconds'' @ nl @
            ''# TYPE http_response_time_avg_ms gauge'' @ nl @
            ''http_response_time_avg_ms'' @ label e @
              (if 0 < requestCount m
               then toFixed2 toString
                      (js_div (totalResponseTime m) (Num (of_nat (requestCount m))))
               else ''0'') @ nl @
            nl @
            ''# HELP process_uptime_ms Process uptime in milliseconds'' @ nl @
            ''# TYPE process_uptime_ms gauge'' @ nl @
            ''process_uptime_ms'' @ label e @ int_toString uptime @ nl @
            nl @
            ''# HELP http_errors_total Total HTTP errors'' @ nl @
            ''# TYPE http_errors_total counter'' @ nl @
            ''http_errors_total'' @ label e @ nat_toString (errors_srv m) @ nl)\<rparr>)"

text \<open>The page response: the headers, then the compressed or the raw buffer.\<close>

definition page :: "payload \<Rightarrow> request \<Rightarrow> response" where
  "page pl req =
     (let hs = [''Content-Type'' \<mapsto> HString ''text/html; charset=utf-8'',
                ''Cache-Control'' \<mapsto> HString ''public, max-age=300, stale-while-revalidate=600'',
                ''ETag'' \<mapsto> HString ([CHR 0x22] @ nat_toString (length (htmlBuffer pl))
                                      @ ''-v1'' @ [CHR 0x22]),
                ''X-Content-Type-Options'' \<mapsto> HString ''nosniff'',
                ''X-Frame-Options'' \<mapsto> HString ''DENY''];
          acceptEncoding = (case accept_encoding req of None \<Rightarrow> '''' | Some v \<Rightarrow> v)
      in if includes_str acceptEncoding ''gzip''
         then \<lparr>statusCode = 200,
               headers = hs(''Content-Encoding'' \<mapsto> HString ''gzip'',
                            ''Content-Length'' \<mapsto> HNumber (length (compressedHtml pl))),
               body = Buffer (compressedHtml pl)\<rparr>
         else \<lparr>statusCode = 200,
               headers = hs(''Content-Length'' \<mapsto> HNumber (length (htmlBuffer pl))),
               body = Buffer (htmlBuffer pl)\<rparr>)"

text \<open>
  The callback of \<open>http.createServer\<close>: the response and the metrics after the request.
  \<open>Number(endTime - startTime) / 1_000_000\<close> converts the elapsed nanoseconds to a number
  and divides.
\<close>

definition handler ::
  "(rat \<Rightarrow> string) \<Rightarrow> payload \<Rightarrow> env \<Rightarrow> request \<Rightarrow> srv_metrics \<Rightarrow> response \<times> srv_metrics" where
  "handler toString pl e req m =
     (if url req = ''/health'' then (health toString e m, m)
      else if url req = ''/metrics'' then (metrics_text toString e m, m)
      else let m = m\<lparr>requestCount := requestCount m + 1\<rparr>;
               res = page pl req;
               responseTimeMs = js_div (round_double (of_int (hr_end e - hr_start e)))
                                       (Num 1000000)
           in (res, m\<lparr>totalResponseTime := js_add (totalResponseTime m) responseTimeMs\<rparr>))"

text \<open>The field of a JSON object.\<close>

definition field :: "response \<Rightarrow> string \<Rightarrow> json option" where
  "field res k = (case body res of Json fs \<Rightarrow> map_of fs k | _ \<Rightarrow> None)"

subsection \<open>The primary process\<close>

text \<open>
  The primary knows its live workers by their ids (\<open>cluster.workers\<close>);
  \<open>cluster.fork()\<close> starts a worker under the next id. What the primary does is a list
  of actions. The primary either runs or has called \<open>process.exit\<close>.
\<close>

record primary =
  workers :: "nat list"
  next_id :: nat

datatype action = Fork nat | Kill nat string | Exit nat

datatype supervisor = Running primary | Exited nat

datatype event = WorkerExit nat | SIGTERM

definition fork :: "primary \<Rightarrow> primary" where
  "fork p = p\<lparr>workers := workers p @ [next_id p], next_id := next_id p + 1\<rparr>"

text \<open>\<open>for (let i = 0; i < numCPUs; i++) cluster.fork();\<close>\<close>

definition start :: "nat \<Rightarrow> primary" where
  "start numCPUs = (fork ^^ numCPUs) \<lparr>workers = [], next_id = 1\<rparr>"

text \<open>\<open>cluster.on("exit", ...)\<close>: log and fork, whatever the code or signal.\<close>

definition on_exit :: "primary \<Rightarrow> action list \<times> primary" where
  "on_exit p = ([Fork (next_id p)], fork p)"

text \<open>\<open>process.on("SIGTERM", ...)\<close>: signal every live worker, then exit at once.\<close>

definition on_SIGTERM :: "primary \<Rightarrow> action list \<times> supervisor" where
  "on_SIGTERM p = (map (\<lambda>w. Kill w ''SIGTERM'') (workers p) @ [Exit 0], Exited 0)"

text \<open>
  One event. A worker that has exited is no longer among the live workers when the
  \<open>exit\<close> listener runs. A process that has exited runs no listener any more.
\<close>

fun step :: "event \<Rightarrow> supervisor \<Rightarrow> action list \<times> supervisor" where
  "step (WorkerExit w) (Running p) =
     (let (as, p') = on_exit (p\<lparr>workers := removeAll w (workers p)\<rparr>) in (as, Running p'))"
| "step SIGTERM (Running p) = on_SIGTERM p"
| "step ev (Exited c) = ([], Exited c)"

fun run :: "event list \<Rightarrow> supervisor \<Rightarrow> action list \<times> supervisor" where
  "run [] s = ([], s)"
| "run (ev # evs) s =
     (let (as, s') = step ev s; (bs, s'') = run evs s' in (as @ bs, s''))"

text \<open>A sequence of events can happen when every worker that exits was alive.\<close>

fun feasible :: "event list \<Rightarrow> supervisor \<Rightarrow> bool" where
  "feasible [] s = True"
| "feasible (ev # evs) s =
     ((case (ev, s) of (WorkerExit w, Running p) \<Rightarrow> w \<in> set (workers p) | _ \<Rightarrow> True)
      \<and> feasible evs (snd (step ev s)))"

definition is_Fork :: "action \<Rightarrow> bool" where
  "is_Fork a = (case a of Fork w \<Rightarrow> True | _ \<Rightarrow> False)"

definition live :: "supervisor \<Rightarrow> nat" where
  "live s = (case s of Running p \<Rightarrow> length (workers p) | Exited c \<Rightarrow> 0)"

section \<open>Properties of the rounding\<close>

text \<open>
  The exponent is the right one, the rounded value is a multiple of the spacing at most
  half a spacing away, and the decimal fraction \<open>0.1\<close> is rounded to its well-known
  binary64 value.
\<close>

lemma pow2_powi: "pow2 e = 2 powi e"
  by (simp add: pow2_def power_int_def inverse_eq_divide power_one_over)

lemma pow2_pos: "0 < pow2 e"
  by (simp add: pow2_powi zero_less_power_int)

lemma pow2_add: "pow2 (a + b) = pow2 a * pow2 b"
  by (simp add: pow2_powi power_int_add)

lemma pow2_nonneg_int: "0 \<le> e \<Longrightarrow> pow2 e = of_int (2 ^ nat e)"
  by (simp add: pow2_def)

lemma round_half_even_le: "x \<le> of_int j \<Longrightarrow> round_half_even x \<le> j"
proof -
  assume a: "x \<le> of_int j"
  have f: "\<lfloor>x\<rfloor> \<le> j" using a by (simp add: floor_le_iff) 
  show ?thesis
  proof (cases "\<lfloor>x\<rfloor> = j")
    case True
    then have "x = of_int j" using a by (metis of_int_floor_le order_antisym)
    then show ?thesis by (simp add: round_half_even_def)
  next
    case False
    then have "\<lfloor>x\<rfloor> + 1 \<le> j" using f by simp
    then show ?thesis by (simp add: round_half_even_def Let_def)
  qed
qed

lemma round_half_even_ge: "of_int j \<le> x \<Longrightarrow> j \<le> round_half_even x"
proof -
  assume "of_int j \<le> x"
  then have "j \<le> \<lfloor>x\<rfloor>" by (simp add: le_floor_iff)
  then show ?thesis by (simp add: round_half_even_def Let_def)
qed

lemma ilog2_bounds:
  assumes "0 < x"
  shows "pow2 (ilog2 x) \<le> x \<and> x < pow2 (ilog2 x + 1)"
proof (cases "1 \<le> x")
  case True
  define n where "n = nat \<lfloor>x\<rfloor>"
  define k where "k = floorlog 2 n"
  have n1: "0 < n" using True by (simp add: n_def)
  have b: "2 ^ (k - 1) \<le> n" "n < 2 ^ k"
    using floorlog_bounds[of n 2] n1 by (simp_all add: k_def)
  have k1: "0 < k" using n1 floorlog_eq_zero_iff[of 2 n] by (simp add: k_def)
  have e: "ilog2 x = int k - 1" using True by (simp add: ilog2_def n_def k_def)
  have nx: "rat_of_nat n \<le> x" "x < rat_of_nat n + 1"
    using True by (simp_all add: n_def) linarith
  have c1: "rat_of_nat (2 ^ (k - 1)) = 2 ^ (k - 1)" and c2: "rat_of_nat (2 ^ k) = 2 ^ k"
    by simp_all
  have "rat_of_nat (2 ^ (k - 1)) \<le> rat_of_nat n" using b(1) by (simp only: of_nat_le_iff)
  then have lo: "(2::rat) ^ (k - 1) \<le> x" using nx(1) unfolding c1 by linarith
  have "n + 1 \<le> 2 ^ k" using b(2) by simp
  then have "rat_of_nat (n + 1) \<le> rat_of_nat (2 ^ k)" by (simp only: of_nat_le_iff)
  then have "rat_of_nat n + 1 \<le> 2 ^ k" unfolding c2 by simp
  then have hi: "x < (2::rat) ^ k" using nx(2) by linarith
  have p1: "pow2 (int k - 1) = 2 ^ (k - 1)" using k1 by (simp add: pow2_def nat_diff_distrib')
  have p2: "pow2 (int k - 1 + 1) = 2 ^ k" by (simp add: pow2_def)
  show ?thesis unfolding e p1 p2 using lo hi by simp
next
  case False
  define y where "y = 1 / x"
  define c where "c = nat \<lceil>y\<rceil>"
  define k where "k = floorlog 2 (c - 1)"
  have y1: "1 < y" using False assms by (simp add: y_def)
  then have "2 \<le> \<lceil>y\<rceil>" by (simp add: le_ceiling_iff)
  then have c2: "2 \<le> c" unfolding c_def by linarith
  have cy: "rat_of_nat c - 1 < y" "y \<le> rat_of_nat c"
    using y1 ceiling_correct[of y] by (simp_all add: c_def)
  have b: "2 ^ (k - 1) \<le> c - 1" "c - 1 < 2 ^ k"
    using floorlog_bounds[of "c - 1" 2] c2 by (simp_all add: k_def)
  have k1: "0 < k" using c2 floorlog_eq_zero_iff[of 2 "c - 1"] by (simp add: k_def)
  have e: "ilog2 x = - int k" using False by (simp add: ilog2_def y_def c_def k_def)
  have d1: "rat_of_nat (2 ^ (k - 1)) = 2 ^ (k - 1)" and d2: "rat_of_nat (2 ^ k) = 2 ^ k"
    by simp_all
  have d3: "rat_of_nat (c - 1) = rat_of_nat c - 1" using c2 by (simp add: of_nat_diff)
  have "rat_of_nat (2 ^ (k - 1)) \<le> rat_of_nat (c - 1)" using b(1) by (simp only: of_nat_le_iff)
  then have lo: "(2::rat) ^ (k - 1) < y" using cy(1) unfolding d1 d3 by linarith
  have "c \<le> 2 ^ k" using b(2) by simp
  then have "rat_of_nat c \<le> rat_of_nat (2 ^ k)" by (simp only: of_nat_le_iff)
  then have hi: "y \<le> (2::rat) ^ k" using cy(2) unfolding d2 by linarith
  have p1: "pow2 (- int k) = 1 / 2 ^ k" by (simp add: pow2_def)
  have p2: "pow2 (- int k + 1) = 1 / 2 ^ (k - 1)"
  proof (cases "k = 1")
    case True
    then show ?thesis by (simp add: pow2_def)
  next
    case False
    then have "- int k + 1 < 0" using k1 by simp
    moreover have "nat (int k - 1) = k - 1" using k1 by simp
    ultimately show ?thesis by (simp add: pow2_def)
  qed
  have "1 / 2 ^ k \<le> x"
  proof -
    have "x * y = 1" using assms by (simp add: y_def)
    moreover have "x * y \<le> x * 2 ^ k" using hi assms by (simp add: mult_left_mono)
    ultimately have "1 \<le> x * 2 ^ k" by simp
    then show ?thesis by (simp add: pos_divide_le_eq)
  qed
  moreover have "x < 1 / 2 ^ (k - 1)"
  proof -
    have "x * y = 1" using assms by (simp add: y_def)
    moreover have "x * 2 ^ (k - 1) < x * y" using lo assms by (simp add: mult_strict_left_mono)
    ultimately have "x * 2 ^ (k - 1) < 1" by simp
    then show ?thesis by (simp add: pos_less_divide_eq)
  qed
  ultimately show ?thesis unfolding e p1 p2 by simp
qed

lemma round_double_tenth: "round_double (1 / 10) = Num (3602879701896397 / 2 ^ 55)"
  by code_simp

lemma round_half_even_near: "\<bar>rat_of_int (round_half_even x) - x\<bar> \<le> 1 / 2"
proof -
  have f: "rat_of_int \<lfloor>x\<rfloor> \<le> x" "x < rat_of_int \<lfloor>x\<rfloor> + 1" by linarith+
  show ?thesis
    using f by (auto simp add: round_half_even_def Let_def)
qed

lemma round_pos_error:
  assumes "0 < x" and "round_pos x = Num r"
  shows "\<bar>r - x\<bar> \<le> pow2 (max (ilog2 x) (- 1022) - 52) / 2"
proof -
  define q where "q = max (ilog2 x) (- 1022) - 52"
  define s where "s = pow2 q"
  have s: "0 < s" by (simp add: s_def pow2_pos)
  have r: "r = rat_of_int (round_half_even (x / s)) * s"
    using assms(2)
    by (simp add: round_pos_def Let_def q_def[symmetric] s_def[symmetric] split: if_splits)
  have "r - x = (rat_of_int (round_half_even (x / s)) - x / s) * s"
    using s by (simp add: r algebra_simps)
  then have "\<bar>r - x\<bar> = \<bar>rat_of_int (round_half_even (x / s)) - x / s\<bar> * s"
    using s by (simp add: abs_mult)
  also have "\<dots> \<le> 1 / 2 * s"
    using round_half_even_near[of "x / s"] s by (intro mult_right_mono) simp_all
  finally show ?thesis by (simp add: s_def q_def)
qed

text \<open>
  Rounding never crosses a value of the grid: below \<open>2 ^ 32\<close> the spacing of binary64
  divides \<open>2 ^ -21\<close>, so a multiple of \<open>2 ^ -21\<close> that bounds the exact value also bounds
  the rounded one. In particular integers below \<open>2 ^ 32\<close> are exact.
\<close>

lemma ilog2_le_31:
  assumes "0 < x" "x < 2 ^ 32"
  shows "ilog2 x \<le> 31"
proof (cases "1 \<le> x")
  case True
  have fl: "\<lfloor>x\<rfloor> < 2 ^ 32" using assms(2) by (simp add: floor_less_iff)
  have f0: "0 \<le> \<lfloor>x\<rfloor>" using True by simp
  have "nat \<lfloor>x\<rfloor> < 2 ^ 32" using nat_less_iff[OF f0, of "2 ^ 32"] fl by simp
  then have "floorlog 2 (nat \<lfloor>x\<rfloor>) \<le> 32" by (simp add: floorlog_le_iff)
  then show ?thesis using True by (simp add: ilog2_def)
next
  case False
  then show ?thesis by (simp add: ilog2_def)
qed

lemma round_pos_between:
  assumes x: "0 < x" "x < 2 ^ 32"
    and lo: "of_int i / 2 ^ 21 \<le> x"
    and hi: "x \<le> of_int j / 2 ^ 21" "of_int j / 2 ^ 21 \<le> (2 ^ 32 :: rat)"
  shows "\<exists>r. round_pos x = Num r \<and> of_int i / 2 ^ 21 \<le> r \<and> r \<le> of_int j / 2 ^ 21"
proof -
  define q where "q = max (ilog2 x) (- 1022) - 52"
  define s where "s = pow2 q"
  define k where "k = (2::int) ^ nat (- 21 - q)"
  define r where "r = rat_of_int (round_half_even (x / s)) * s"
  have q: "q \<le> - 21" using ilog2_le_31[OF x] by (simp add: q_def)
  have s: "0 < s" by (simp add: s_def pow2_pos)
  have "pow2 (- 21) = pow2 (- 21 - q) * s"
    unfolding s_def by (simp add: pow2_add[symmetric])
  moreover have "pow2 (- 21) = 1 / 2 ^ 21" by (simp add: pow2_def)
  moreover have "pow2 (- 21 - q) = of_int k" using q by (simp add: pow2_nonneg_int k_def)
  ultimately have grid: "1 / 2 ^ 21 = rat_of_int k * s" by simp
  have gi: "of_int i / 2 ^ 21 = rat_of_int (i * k) * s" using grid by simp
  have gj: "of_int j / 2 ^ 21 = rat_of_int (j * k) * s" using grid by simp
  have "rat_of_int (i * k) \<le> x / s" using lo s unfolding gi by (simp add: pos_le_divide_eq)
  then have "i * k \<le> round_half_even (x / s)" by (rule round_half_even_ge)
  then have "rat_of_int (i * k) \<le> rat_of_int (round_half_even (x / s))" by (simp only: of_int_le_iff)
  then have rlo: "of_int i / 2 ^ 21 \<le> r" unfolding gi r_def using s by (simp only: mult_le_cancel_right_pos)
  have "x / s \<le> rat_of_int (j * k)" using hi(1) s unfolding gj by (simp add: pos_divide_le_eq)
  then have "round_half_even (x / s) \<le> j * k" by (rule round_half_even_le)
  then have "rat_of_int (round_half_even (x / s)) \<le> rat_of_int (j * k)" by (simp only: of_int_le_iff)
  then have rhi: "r \<le> of_int j / 2 ^ 21" unfolding gj r_def using s by (simp only: mult_le_cancel_right_pos)
  have "r \<le> 2 ^ 32" using rhi hi(2) by simp
  moreover have "(2::rat) ^ 32 < pow2 1024" by (simp add: pow2_def)
  ultimately have "\<not> pow2 1024 \<le> r" by simp
  then have "round_pos x = Num r"
    by (simp add: round_pos_def Let_def q_def[symmetric] s_def[symmetric] r_def[symmetric])
  then show ?thesis using rlo rhi by blast
qed


lemma round_double_int:
  assumes "0 \<le> i" "i < 2 ^ 32"
  shows "round_double (rat_of_int i) = Num (rat_of_int i)"
proof (cases "i = 0")
  case True
  then show ?thesis by (simp add: round_double_def)
next
  case False
  then have pos: "0 < rat_of_int i" using assms(1) by simp
  have lt: "rat_of_int i < 2 ^ 32" using assms(2) by (metis of_int_less_iff of_int_numeral of_int_power)
  have g: "rat_of_int (i * 2 ^ 21) / 2 ^ 21 = rat_of_int i" by simp
  have "\<exists>r. round_pos (rat_of_int i) = Num r \<and> rat_of_int (i * 2 ^ 21) / 2 ^ 21 \<le> r
           \<and> r \<le> rat_of_int (i * 2 ^ 21) / 2 ^ 21"
    by (rule round_pos_between[OF pos lt]) (use lt in \<open>simp_all only: g order_refl less_imp_le\<close>)
  then have "round_pos (rat_of_int i) = Num (rat_of_int i)" unfolding g by auto
  then show ?thesis using pos by (simp add: round_double_def)
qed

text \<open>
  The index computed by \<open>calculatePercentile\<close>. When the quotient \<open>p / 100\<close> was rounded
  downwards (by at most \<open>2 ^ -53\<close>), the rounded product with a length below \<open>2 ^ 32\<close>
  has the same ceiling as the exact product \<open>p * n / 100\<close>: the exact product is an
  integer or at least \<open>1/100\<close> away from one, and the error is below \<open>2 ^ -21\<close>.
\<close>

lemma ceiling_round_product:
  fixes p n :: nat and q :: rat
  assumes n: "0 < n" "n < 2 ^ 32"
    and p: "p \<le> 100"
    and q: "0 < q" "q \<le> rat_of_nat p / 100" "rat_of_nat p / 100 - q \<le> 1 / 2 ^ 53"
  shows "\<exists>r. round_double (q * rat_of_nat n) = Num r
             \<and> \<lceil>r\<rceil> = \<lceil>rat_of_nat p / 100 * rat_of_nat n\<rceil>"
proof -
  define e where "e = rat_of_nat p / 100 * rat_of_nat n"
  define k where "k = \<lceil>e\<rceil>"
  define x where "x = q * rat_of_nat n"
  have n0: "0 < rat_of_nat n" using n(1) by simp
  have n32: "rat_of_nat n < 2 ^ 32" using n(2) by (metis of_nat_less_iff of_nat_numeral of_nat_power)
  have x0: "0 < x" using q(1) n0 by (simp add: x_def)
  have xe: "x \<le> e" unfolding x_def e_def using q(2) n0 by (simp add: mult_right_mono)
  have en: "e \<le> rat_of_nat n"
  proof -
    have "rat_of_nat p / 100 \<le> 1" using p by simp
    then have "rat_of_nat p / 100 * rat_of_nat n \<le> 1 * rat_of_nat n"
      using n0 by (intro mult_right_mono) simp_all
    then show ?thesis by (simp add: e_def)
  qed
  have x32: "x < 2 ^ 32" using xe en n32 by linarith
  have ek: "e \<le> of_int k" by (simp add: k_def)
  have kn: "k \<le> int n" unfolding k_def using en by (simp add: ceiling_le_iff)
  have k32: "rat_of_int k \<le> 2 ^ 32"
  proof -
    have "rat_of_int k \<le> rat_of_nat n" using kn by (metis of_int_le_iff of_int_of_nat_eq)
    then show ?thesis using n32 by linarith
  qed
  have e100: "e = rat_of_int (int (p * n)) / 100" by (simp add: e_def)
  have "rat_of_int (k - 1) < e" using ceiling_correct[of e] by (simp add: k_def)
  then have "rat_of_int (100 * (k - 1)) < rat_of_int (int (p * n))" unfolding e100 by simp
  then have "100 * (k - 1) < int (p * n)" by (simp only: of_int_less_iff)
  then have "100 * (k - 1) + 1 \<le> int (p * n)" by simp
  then have "rat_of_int (100 * (k - 1) + 1) \<le> rat_of_int (int (p * n))" by (simp only: of_int_le_iff)
  then have elo: "rat_of_int k - 1 + 1 / 100 \<le> e" unfolding e100 by simp
  have "e - x = (rat_of_nat p / 100 - q) * rat_of_nat n" by (simp add: e_def x_def algebra_simps)
  also have "\<dots> \<le> 1 / 2 ^ 53 * rat_of_nat n" using q(3) n0 by (intro mult_right_mono) simp_all
  also have "\<dots> \<le> 1 / 2 ^ 53 * 2 ^ 32" using n32 by simp
  finally have ex: "e - x \<le> 1 / 2 ^ 21" by simp
  have xlo: "rat_of_int k - 1 + 1 / 128 \<le> x" using elo ex by simp
  have glo: "rat_of_int ((k - 1) * 2 ^ 21 + 2 ^ 14) / 2 ^ 21 = rat_of_int k - 1 + 1 / 128"
    by (simp add: field_simps)
  have ghi: "rat_of_int (k * 2 ^ 21) / 2 ^ 21 = rat_of_int k" by simp
  have "\<exists>r. round_pos x = Num r \<and> rat_of_int ((k - 1) * 2 ^ 21 + 2 ^ 14) / 2 ^ 21 \<le> r
           \<and> r \<le> rat_of_int (k * 2 ^ 21) / 2 ^ 21"
  proof (rule round_pos_between[OF x0 x32])
    show "rat_of_int ((k - 1) * 2 ^ 21 + 2 ^ 14) / 2 ^ 21 \<le> x" unfolding glo by (rule xlo)
    show "x \<le> rat_of_int (k * 2 ^ 21) / 2 ^ 21" unfolding ghi using xe ek by linarith
    show "rat_of_int (k * 2 ^ 21) / 2 ^ 21 \<le> 2 ^ 32" unfolding ghi by (rule k32)
  qed
  then obtain r where r: "round_pos x = Num r" "rat_of_int k - 1 + 1 / 128 \<le> r" "r \<le> rat_of_int k"
    unfolding glo ghi by blast
  have "\<lceil>r\<rceil> = k" using r(2,3) by (intro ceiling_unique) simp_all
  moreover have "round_double x = Num r" using x0 r(1) by (simp add: round_double_def)
  ultimately show ?thesis unfolding x_def k_def e_def by blast
qed

lemma calculatePercentile_index:
  fixes p :: nat
  assumes xs: "xs \<noteq> []" "length xs < 2 ^ 32"
    and p: "0 < p" "p \<le> 100"
    and q: "js_div (Num (rat_of_nat p)) (Num 100) = Num q"
           "0 < q" "q \<le> rat_of_nat p / 100" "rat_of_nat p / 100 - q \<le> 1 / 2 ^ 53"
  shows "calculatePercentile xs (Num (rat_of_nat p)) = Some (nearest_rank xs p)"
    and "nat (max 0 (\<lceil>rat_of_nat p / 100 * rat_of_nat (length xs)\<rceil> - 1)) < length xs"
proof -
  define n where "n = length xs"
  define k where "k = \<lceil>rat_of_nat p / 100 * rat_of_nat n\<rceil>"
  have n: "0 < n" "n < 2 ^ 32" using xs by (simp_all add: n_def)
  obtain r where r: "round_double (q * rat_of_nat n) = Num r" "\<lceil>r\<rceil> = k"
    using ceiling_round_product[OF n p(2) q(2,3,4)] unfolding k_def by blast
  have "0 < rat_of_nat p / 100 * rat_of_nat n" using p(1) n(1) by simp
  then have k1: "1 \<le> k" unfolding k_def by (simp add: less_ceiling_iff[symmetric])
  have "rat_of_nat p / 100 * rat_of_nat n \<le> 1 * rat_of_nat n"
    using p(2) by (intro mult_right_mono) simp_all
  then have kn: "k \<le> int n" unfolding k_def by (simp add: ceiling_le_iff)
  have k32: "k - 1 < 2 ^ 32" using kn n(2) by simp
  have sub: "js_sub (Num (rat_of_int k)) (Num 1) = Num (rat_of_int (k - 1))"
    using round_double_int[of "k - 1"] k1 k32 by (simp add: js_sub_def)
  have mx: "js_max (Num 0) (Num (rat_of_int (k - 1))) = Num (rat_of_int (k - 1))"
    using k1 by (simp add: max_def)
  have idx: "nat (max 0 (k - 1)) = nat (k - 1)" using k1 by simp
  have get: "array_get xs (Num (rat_of_int (k - 1))) = Some (xs ! nat (k - 1))"
    using k1 kn by (simp add: array_get_def n_def[symmetric])
  have c1: "js_mul (js_div (Num (rat_of_nat p)) (Num 100)) (Num (rat_of_nat n)) = Num r"
    by (simp only: q(1) js_mul.simps r(1))
  have c2: "js_ceil (Num r) = Num (rat_of_int k)"
    by (simp only: js_ceil.simps r(2))
  have "calculatePercentile xs (Num (rat_of_nat p)) =
          array_get xs (js_max (Num 0) (js_sub (js_ceil (js_mul (js_div (Num (rat_of_nat p)) (Num 100))
             (Num (rat_of_nat n)))) (Num 1)))"
    unfolding calculatePercentile_def Let_def n_def using xs(1) by (simp only: length_0_conv if_False)
  also have "\<dots> = Some (xs ! nat (k - 1))"
    by (simp only: c1 c2 sub mx get)
  also have "\<dots> = Some (nearest_rank xs p)"
    unfolding nearest_rank_def n_def[symmetric] k_def[symmetric] idx ..
  finally show "calculatePercentile xs (Num (rat_of_nat p)) = Some (nearest_rank xs p)" .
  show "nat (max 0 (\<lceil>rat_of_nat p / 100 * rat_of_nat (length xs)\<rceil> - 1)) < length xs"
    unfolding n_def[symmetric] k_def[symmetric] using k1 kn by linarith
qed

lemma div_50: "js_div (Num 50) (Num 100) = Num (1 / 2)"
  by code_simp
lemma div_95: "js_div (Num 95) (Num 100) = Num (4278419646001971 / 2 ^ 52)"
  by code_simp
lemma div_99: "js_div (Num 99) (Num 100) = Num (4458563631096791 / 2 ^ 52)"
  by code_simp
section \<open>The percentile function\<close>

text \<open>
  The division \<open>p / 100\<close> is not exact for \<open>p = 95\<close> and \<open>p = 99\<close>, and the product with
  the number of samples is rounded again. For the three percentiles that \<open>runLoadTest\<close>
  asks for, the quotient is rounded downwards, and then the two roundings never carry
  the product across an integer: the index is the one of exact arithmetic. A JavaScript
  array has fewer than \<open>2 ^ 32\<close> elements.
\<close>

lemma calculatePercentile_used:
  assumes "xs \<noteq> []" and "length xs < 2 ^ 32" and "p \<in> {50, 95, 99}"
  shows "calculatePercentile xs (Num (rat_of_nat p)) = Some (nearest_rank xs p)"
    and "nat (max 0 (\<lceil>rat_of_nat p / 100 * rat_of_nat (length xs)\<rceil> - 1)) < length xs"
proof -
  consider "p = 50" | "p = 95" | "p = 99" using assms(3) by auto
  then have "calculatePercentile xs (Num (rat_of_nat p)) = Some (nearest_rank xs p)
      \<and> nat (max 0 (\<lceil>rat_of_nat p / 100 * rat_of_nat (length xs)\<rceil> - 1)) < length xs"
  proof cases
    case 1
    have d: "js_div (Num (rat_of_nat 50)) (Num 100) = Num (1 / 2)"
      using div_50 by simp
    show ?thesis unfolding 1
      using calculatePercentile_index[OF assms(1,2) _ _ d] by simp
  next
    case 2
    have d: "js_div (Num (rat_of_nat 95)) (Num 100) = Num (4278419646001971 / 2 ^ 52)"
      using div_95 by simp
    show ?thesis unfolding 2
      using calculatePercentile_index[OF assms(1,2) _ _ d] by simp
  next
    case 3
    have d: "js_div (Num (rat_of_nat 99)) (Num 100) = Num (4458563631096791 / 2 ^ 52)"
      using div_99 by simp
    show ?thesis unfolding 3
      using calculatePercentile_index[OF assms(1,2) _ _ d] by simp
  qed
  then show "calculatePercentile xs (Num (rat_of_nat p)) = Some (nearest_rank xs p)"
    and "nat (max 0 (\<lceil>rat_of_nat p / 100 * rat_of_nat (length xs)\<rceil> - 1)) < length xs"
    by simp_all
qed

text \<open>
  Claim C1. Applied to a sample sequence of length \<open>n > 0\<close>, \<open>calculatePercentile\<close> returns
  the element at the index \<open>max(0, ceil(p/100 * n) - 1)\<close>, computed with JavaScript
  numbers. For the percentiles 50, 95 and 99, which are the ones the load generator
  computes, that index is the one of exact arithmetic and lies inside the sequence:
  nearest rank, no interpolation. For the sorted sequence \<open>[10, 20, 30, 40, 50]\<close>, P50
  is \<open>30\<close> and P95 is \<open>50\<close>.
\<close>

theorem calculatePercentile_nearest_rank:
  assumes "xs \<noteq> []" and "length xs < 2 ^ 32" and "p \<in> {50, 95, 99}"
  shows "calculatePercentile xs v =
           array_get xs (js_max (Num 0)
             (js_sub (js_ceil (js_mul (js_div v (Num 100)) (Num (rat_of_nat (length xs)))))
                     (Num 1)))
       \<and> calculatePercentile xs (Num (rat_of_nat p)) =
           Some (xs ! nat (max 0 (\<lceil>rat_of_nat p / 100 * rat_of_nat (length xs)\<rceil> - 1)))
       \<and> nat (max 0 (\<lceil>rat_of_nat p / 100 * rat_of_nat (length xs)\<rceil> - 1)) < length xs
       \<and> calculatePercentile [10, 20, 30, 40, 50] (Num 50) = Some 30
       \<and> calculatePercentile [10, 20, 30, 40, 50] (Num 95) = Some 50"
proof -
  have c50: "\<lceil>5 / 2 :: rat\<rceil> = 3" by (rule ceiling_unique) simp_all
  have c95: "\<lceil>19 / 4 :: rat\<rceil> = 5" by (rule ceiling_unique) simp_all
  have a: "calculatePercentile [10, 20, 30, 40, 50] (Num 50) = Some 30"
    using calculatePercentile_used(1)[of "[10, 20, 30, 40, 50]" 50]
    by (simp add: nearest_rank_def c50)
  have b: "calculatePercentile [10, 20, 30, 40, 50] (Num 95) = Some 50"
    using calculatePercentile_used(1)[of "[10, 20, 30, 40, 50]" 95]
    by (simp add: nearest_rank_def c95)
  have c: "calculatePercentile xs v =
           array_get xs (js_max (Num 0)
             (js_sub (js_ceil (js_mul (js_div v (Num 100)) (Num (rat_of_nat (length xs)))))
                     (Num 1)))"
    using assms(1) by (simp add: calculatePercentile_def Let_def)
  show ?thesis
    using calculatePercentile_used[OF assms] a b c by (simp only: nearest_rank_def simp_thms)
qed

theorem calculatePercentile_nearest_rank_witness:
  "calculatePercentile [7, 8, 9] (Num 99) = Some 9"
proof -
  have h: "[7, 8, 9 :: rat] \<noteq> []" "length [7, 8, 9 :: rat] < 2 ^ 32" "(99 :: nat) \<in> {50, 95, 99}"
    by simp_all
  have c: "\<lceil>297 / 100 :: rat\<rceil> = 3" by (rule ceiling_unique) simp_all
  from calculatePercentile_nearest_rank[OF h, of "Num 99"]
  have "calculatePercentile [7, 8, 9] (Num (rat_of_nat 99)) =
          Some ([7, 8, 9] ! nat (max 0 (\<lceil>rat_of_nat 99 / 100 * rat_of_nat (length [7, 8, 9 :: rat])\<rceil> - 1)))"
    by blast
  then show ?thesis by (simp add: c)
qed

text \<open>
  The restriction to the percentiles in use matters: \<open>7 / 100\<close> is rounded upwards, and
  for 100 samples the product \<open>0.07 * 100\<close> comes out just above \<open>7\<close>, so the function
  would read index \<open>7\<close> where exact arithmetic gives index \<open>6\<close>.
\<close>

lemma calculatePercentile_rounding_remark:
  "calculatePercentile (map rat_of_nat [0..<100]) (Num 7) = Some 7"
  "nearest_rank (map rat_of_nat [0..<100]) 7 = 6"
  by code_simp+

section \<open>The counters of the load generator\<close>

lemma listener_totalRequests:
  "totalRequests (listener c m) = totalRequests m + 1"
  by (cases c) (simp_all add: on_end_def on_error_def on_timeout_def Let_def)

lemma listener_outcomes:
  "successfulRequests (listener c m) + failedRequests (listener c m) =
     successfulRequests m + failedRequests m + 1"
  by (cases c) (simp_all add: on_end_def on_error_def on_timeout_def Let_def)

lemma foldl_listener_totalRequests:
  "totalRequests (foldl (\<lambda>m c. listener c m) m cs) = totalRequests m + length cs"
  by (induction cs arbitrary: m) (simp_all add: listener_totalRequests)

lemma foldl_listener_outcomes:
  "successfulRequests (foldl (\<lambda>m c. listener c m) m cs)
     + failedRequests (foldl (\<lambda>m c. listener c m) m cs) =
   successfulRequests m + failedRequests m + length cs"
  by (induction cs arbitrary: m) (simp_all add: listener_outcomes)

lemma record_all_totalRequests: "totalRequests (record_all cs) = length cs"
  by (simp add: record_all_def foldl_listener_totalRequests metrics_init_def)

lemma record_all_consistent:
  "successfulRequests (record_all cs) + failedRequests (record_all cs) = totalRequests (record_all cs)"
  by (simp add: record_all_def foldl_listener_outcomes foldl_listener_totalRequests
      metrics_init_def)

lemma makeRequest_totalRequests:
  "totalRequests (makeRequest out m) = totalRequests m + length (listeners_run out)"
  by (simp add: makeRequest_def foldl_listener_totalRequests)

lemma makeRequest_outcomes:
  "successfulRequests (makeRequest out m) + failedRequests (makeRequest out m) =
     successfulRequests m + failedRequests m + length (listeners_run out)"
  by (simp add: makeRequest_def foldl_listener_outcomes)

text \<open>The loop runs the listeners of its requests, one request after the other.\<close>

lemma worker_listeners:
  "worker endTime script m =
     foldl (\<lambda>m c. listener c m) m
       (concat (map (\<lambda>(now, out). listeners_run out)
          (takeWhile (\<lambda>(now, out). js_lt (Num (of_nat now)) endTime) script)))"
  by (induction script arbitrary: m) (auto simp add: makeRequest_def)

lemma worker_consistent:
  "successfulRequests (worker endTime script metrics_init)
     + failedRequests (worker endTime script metrics_init) =
   totalRequests (worker endTime script metrics_init)"
  unfolding worker_listeners record_all_def[symmetric] by (rule record_all_consistent)

text \<open>
  Claim C4. Every recording step (response end, transport error or timeout) adds one to
  \<open>totalRequests\<close> and one to the sum \<open>successfulRequests + failedRequests\<close>. So after
  any sequence of recording steps from the initial object, and therefore when the run
  completes, \<open>successfulRequests + failedRequests = totalRequests\<close>. The same holds
  request by request, where a request that timed out runs two recording steps, and
  when an issuing loop has ended.
\<close>

theorem counters_consistent:
  "totalRequests (listener c m) = totalRequests m + 1
   \<and> successfulRequests (listener c m) + failedRequests (listener c m) =
       successfulRequests m + failedRequests m + 1
   \<and> successfulRequests (record_all cs) + failedRequests (record_all cs) =
       totalRequests (record_all cs)
   \<and> successfulRequests (makeRequest out m) + failedRequests (makeRequest out m)
         + totalRequests m =
       successfulRequests m + failedRequests m + totalRequests (makeRequest out m)
   \<and> successfulRequests (worker endTime script metrics_init)
         + failedRequests (worker endTime script metrics_init) =
       totalRequests (worker endTime script metrics_init)"
proof -
  have r: "successfulRequests (makeRequest out m) + failedRequests (makeRequest out m)
         + totalRequests m =
       successfulRequests m + failedRequests m + totalRequests (makeRequest out m)"
    by (simp add: makeRequest_totalRequests makeRequest_outcomes)
  show ?thesis
    using r worker_consistent[of endTime script]
    by (simp only: listener_totalRequests listener_outcomes record_all_consistent simp_thms)
qed

section \<open>What is recorded for a request\<close>

lemma on_end_counts:
  "successfulRequests (on_end sc l m) =
     successfulRequests m + (if 200 \<le> sc \<and> sc < 400 then 1 else 0)"
  "failedRequests (on_end sc l m) =
     failedRequests m + (if 200 \<le> sc \<and> sc < 400 then 0 else 1)"
  "errors (on_end sc l m) = errors m"
  "latencies (on_end sc l m) = latencies m @ [l]"
  by (simp_all add: on_end_def Let_def)

lemma on_error_counts:
  "successfulRequests (on_error code msg m) = successfulRequests m"
  "failedRequests (on_error code msg m) = failedRequests m + 1"
  "errors (on_error code msg m) = bump (errors m) (errorType code msg)"
  "latencies (on_error code msg m) = latencies m"
  by (simp_all add: on_error_def)

lemma on_timeout_counts:
  "successfulRequests (on_timeout m) = successfulRequests m"
  "failedRequests (on_timeout m) = failedRequests m + 1"
  "errors (on_timeout m) = bump (errors m) ''TIMEOUT''"
  "latencies (on_timeout m) = latencies m"
  by (simp_all add: on_timeout_def)

lemma bump_apply: "or0 (bump counts k k') = or0 (counts k') + (if k' = k then 1 else 0)"
  by (simp add: bump_def or0_def)

lemma worker_foldl:
  "worker endTime script m =
     foldl (\<lambda>m out. makeRequest out m) m
       (map snd (takeWhile (\<lambda>(now, out). js_lt (Num (of_nat now)) endTime) script))"
  by (induction script arbitrary: m) auto

lemma makeRequest_Responded:
  "totalRequests (makeRequest (Responded sc l) m) = totalRequests m + 1"
  "successfulRequests (makeRequest (Responded sc l) m) =
     successfulRequests m + (if 200 \<le> sc \<and> sc < 400 then 1 else 0)"
  "failedRequests (makeRequest (Responded sc l) m) =
     failedRequests m + (if 200 \<le> sc \<and> sc < 400 then 0 else 1)"
  "errors (makeRequest (Responded sc l) m) = errors m"
  by (simp_all add: makeRequest_def on_end_counts listener_totalRequests[of "ResponseEnd sc l", simplified])

lemma makeRequest_Failed:
  "totalRequests (makeRequest (Failed code msg) m) = totalRequests m + 1"
  "successfulRequests (makeRequest (Failed code msg) m) = successfulRequests m"
  "failedRequests (makeRequest (Failed code msg) m) = failedRequests m + 1"
  "or0 (errors (makeRequest (Failed code msg) m) kind) =
     or0 (errors m kind) + (if kind = errorType code msg then 1 else 0)"
  by (simp_all add: makeRequest_def on_error_counts bump_apply
      listener_totalRequests[of "RequestError code msg", simplified])

lemma errorType_ECONNRESET: "errorType (Some ''ECONNRESET'') msg = ''ECONNRESET''"
  by (simp add: errorType_def)

lemma makeRequest_TimedOut:
  "totalRequests (makeRequest TimedOut m) = totalRequests m + 2"
  "successfulRequests (makeRequest TimedOut m) = successfulRequests m"
  "failedRequests (makeRequest TimedOut m) = failedRequests m + 2"
  "or0 (errors (makeRequest TimedOut m) kind) =
     or0 (errors m kind) + (if kind = ''TIMEOUT'' then 1 else 0)
       + (if kind = ''ECONNRESET'' then 1 else 0)"
  by (simp_all add: makeRequest_def on_error_counts on_timeout_counts bump_apply
      errorType_ECONNRESET
      listener_totalRequests[of "RequestError (Some ''ECONNRESET'') ''socket hang up''", simplified]
      listener_totalRequests[of RequestTimeout, simplified])

text \<open>
  Claim C9. No outcome of a request aborts the run: the issuing loop goes on to its
  next iteration after every request and makes one request for each clock reading
  before the end time. A response that ended is recorded once, as successful exactly
  when its status code is in \<open>[200, 400)\<close> and as failed otherwise. A transport error is
  recorded once, as failed, under the kind given by its code (its message when it has
  no code). A request that timed out is not recorded once as the claim has it: the
  timeout listener records it as failed under \<open>TIMEOUT\<close> and the error listener
  records it again as failed under \<open>ECONNRESET\<close>, so one such request adds two to
  \<open>totalRequests\<close> and two to \<open>failedRequests\<close>; a loop whose single request timed
  out reports two requests.
\<close>

theorem outcomes_recorded:
  "totalRequests (makeRequest (Responded sc l) m) = totalRequests m + 1
   \<and> successfulRequests (makeRequest (Responded sc l) m) =
       successfulRequests m + (if 200 \<le> sc \<and> sc < 400 then 1 else 0)
   \<and> failedRequests (makeRequest (Responded sc l) m) =
       failedRequests m + (if 200 \<le> sc \<and> sc < 400 then 0 else 1)
   \<and> errors (makeRequest (Responded sc l) m) = errors m
   \<and> totalRequests (makeRequest (Failed code msg) m) = totalRequests m + 1
   \<and> successfulRequests (makeRequest (Failed code msg) m) = successfulRequests m
   \<and> failedRequests (makeRequest (Failed code msg) m) = failedRequests m + 1
   \<and> or0 (errors (makeRequest (Failed code msg) m) kind) =
       or0 (errors m kind) + (if kind = errorType code msg then 1 else 0)
   \<and> errorType (Some (x # xs)) msg = x # xs
   \<and> errorType None msg = msg
   \<and> totalRequests (makeRequest TimedOut m) = totalRequests m + 2
   \<and> successfulRequests (makeRequest TimedOut m) = successfulRequests m
   \<and> failedRequests (makeRequest TimedOut m) = failedRequests m + 2
   \<and> or0 (errors (makeRequest TimedOut m) kind) =
       or0 (errors m kind) + (if kind = ''TIMEOUT'' then 1 else 0)
         + (if kind = ''ECONNRESET'' then 1 else 0)
   \<and> totalRequests (worker (Num 1000) [(0, TimedOut)] metrics_init) = 2
   \<and> failedRequests (worker (Num 1000) [(0, TimedOut)] metrics_init) = 2
   \<and> worker endTime script m =
       foldl (\<lambda>m out. makeRequest out m) m
         (map snd (takeWhile (\<lambda>(now, out). js_lt (Num (of_nat now)) endTime) script))"
proof -
  have e: "errorType (Some (x # xs)) msg = x # xs" "errorType None msg = msg"
    by (simp_all add: errorType_def)
  have w: "totalRequests (worker (Num 1000) [(0, TimedOut)] metrics_init) = 2"
    "failedRequests (worker (Num 1000) [(0, TimedOut)] metrics_init) = 2"
    by (simp_all add: makeRequest_TimedOut metrics_init_def)
  show ?thesis
    using w worker_foldl[of endTime script m]
    by (simp only: makeRequest_Responded makeRequest_Failed makeRequest_TimedOut e simp_thms)
qed

section \<open>The success-rate check\<close>

lemma rate_99_of_100: "js_mul (js_div (Num 99) (Num 100)) (Num 100) = Num 99"
  by code_simp

lemma rate_9901_of_10000:
  "js_mul (js_div (Num 9901) (Num 10000)) (Num 100) = Num (435450585064407 / 2 ^ 42)"
  by code_simp

lemma first_check:
  "name (checks m p95 p99 ! 0) = ''Success Rate > 99%''"
  "passed (checks m p95 p99 ! 0) = js_gt (successRate m) (Num 99)"
  by (simp_all add: checks_def)

text \<open>
  Claim C6. The check named \<open>Success Rate > 99%\<close> passes exactly when the computed
  success rate is greater than \<open>99\<close>, strictly: it fails when the rate is exactly \<open>99\<close>,
  as for 99 successes in 100 requests, and passes when the rate exceeds \<open>99\<close>, as for
  9901 successes in 10000 requests.
\<close>

theorem success_rate_check_strict:
  "name (checks m p95 p99 ! 0) = ''Success Rate > 99%''
   \<and> (passed (checks m p95 p99 ! 0) \<longleftrightarrow> js_gt (successRate m) (Num 99))
   \<and> (successRate m = Num 99 \<longrightarrow> \<not> passed (checks m p95 p99 ! 0))
   \<and> (\<forall>r. successRate m = Num r \<longrightarrow> (passed (checks m p95 p99 ! 0) \<longleftrightarrow> 99 < r))
   \<and> successRate (m\<lparr>successfulRequests := 99, totalRequests := 100\<rparr>) = Num 99
   \<and> successRate (m\<lparr>successfulRequests := 9901, totalRequests := 10000\<rparr>)
       = Num (435450585064407 / 2 ^ 42)
   \<and> (99 :: rat) < 435450585064407 / 2 ^ 42"
proof -
  have a: "successRate (m\<lparr>successfulRequests := 99, totalRequests := 100\<rparr>) = Num 99"
    using rate_99_of_100 by (simp add: successRate_def)
  have b: "successRate (m\<lparr>successfulRequests := 9901, totalRequests := 10000\<rparr>)
       = Num (435450585064407 / 2 ^ 42)"
    using rate_9901_of_10000 by (simp add: successRate_def)
  have c: "(99 :: rat) < 435450585064407 / 2 ^ 42" by simp
  show ?thesis
    using a b c by (simp add: first_check js_gt_def)
qed

theorem success_rate_check_strict_witness:
  "\<not> passed (checks (metrics_init\<lparr>successfulRequests := 99, totalRequests := 100\<rparr>) 0 0 ! 0)
   \<and> passed (checks (metrics_init\<lparr>successfulRequests := 9901, totalRequests := 10000\<rparr>) 0 0 ! 0)"
proof -
  let ?m = "metrics_init\<lparr>successfulRequests := 99, totalRequests := 100\<rparr>"
  let ?n = "metrics_init\<lparr>successfulRequests := 9901, totalRequests := 10000\<rparr>"
  have a: "successRate ?m = Num 99"
    using success_rate_check_strict[of metrics_init] by simp
  have b: "successRate ?n = Num (435450585064407 / 2 ^ 42)"
    using success_rate_check_strict[of metrics_init] by simp
  have "\<not> passed (checks ?m 0 0 ! 0)"
    using success_rate_check_strict[of ?m 0 0] a by blast
  moreover have "passed (checks ?n 0 0 ! 0)"
    using success_rate_check_strict[of ?n 0 0] b by (simp add: js_gt_def)
  ultimately show ?thesis by blast
qed

section \<open>The exit code\<close>

lemma allPassed_four:
  "allPassed [c1, c2, c3, c4] True \<longleftrightarrow> passed c1 \<and> passed c2 \<and> passed c3 \<and> passed c4"
  by simp

lemma allPassed_checks:
  "allPassed (checks m p95 p99) True \<longleftrightarrow>
     js_gt (successRate m) (Num 99) \<and> p95 < 500 \<and> p99 < 1000 \<and> connectionErrors m = 0"
  unfolding checks_def allPassed_four by simp

lemma calculatePercentile_sorted_samples:
  assumes "length samples < 2 ^ 32" and "p \<in> {50, 95, 99}"
  shows "calculatePercentile (sort samples) (Num (rat_of_nat p)) = Some (percentile_of samples p)"
proof (cases "samples = []")
  case True
  then show ?thesis by (simp add: calculatePercentile_def percentile_of_def)
next
  case False
  then have "sort samples \<noteq> []" by (metis length_0_conv length_sort)
  moreover have "length (sort samples) < 2 ^ 32" using assms(1) by simp
  ultimately show ?thesis
    using calculatePercentile_used(1)[OF _ _ assms(2)] False by (simp add: percentile_of_def)
qed

lemma report_exit:
  assumes "length (latencies m) < 2 ^ 32"
  shows "report m =
     Inr (if js_gt (successRate m) (Num 99) \<and> percentile_of (latencies m) 95 < 500
             \<and> percentile_of (latencies m) 99 < 1000 \<and> connectionErrors m = 0
          then 0 else 1)"
proof -
  have p50: "calculatePercentile (sort (latencies m)) (Num 50) = Some (percentile_of (latencies m) 50)"
    using calculatePercentile_sorted_samples[OF assms, of 50] by simp
  have p95: "calculatePercentile (sort (latencies m)) (Num 95) = Some (percentile_of (latencies m) 95)"
    using calculatePercentile_sorted_samples[OF assms, of 95] by simp
  have p99: "calculatePercentile (sort (latencies m)) (Num 99) = Some (percentile_of (latencies m) 99)"
    using calculatePercentile_sorted_samples[OF assms, of 99] by simp
  show ?thesis
    unfolding report_def Let_def p50 p95 p99 by (simp add: allPassed_checks)
qed

lemma or0_foldl_errors:
  "or0 (errors (foldl (\<lambda>m c. listener c m) m cs) kind) =
     or0 (errors m kind) + length (filter (\<lambda>c. error_kind c = Some kind) cs)"
proof (induction cs arbitrary: m)
  case Nil
  then show ?case by simp
next
  case (Cons c cs)
  show ?case
    by (cases c)
      (simp_all add: Cons.IH on_end_counts on_error_counts on_timeout_counts bump_apply)
qed

lemma record_all_errors:
  "or0 (errors (record_all cs) kind) = length (filter (\<lambda>c. error_kind c = Some kind) cs)"
proof -
  have "or0 (errors metrics_init kind) = 0" by (simp add: metrics_init_def or0_def)
  then show ?thesis by (simp add: record_all_def or0_foldl_errors)
qed

lemma record_all_connectionErrors:
  "connectionErrors (record_all cs) =
     length (filter (\<lambda>c. error_kind c \<in> {Some ''ECONNREFUSED'', Some ''ECONNRESET'',
                                           Some ''TIMEOUT''}) cs)"
  unfolding connectionErrors_def record_all_errors
  by (induction cs) auto

text \<open>
  Claim C7. When the run completes with metrics \<open>m\<close>, the exit code is \<open>0\<close> if all four
  checks pass (success rate above \<open>99\<close>, P95 below \<open>500\<close> ms, P99 below \<open>1000\<close> ms, and no
  recorded \<open>ECONNREFUSED\<close>, \<open>ECONNRESET\<close> or \<open>TIMEOUT\<close>), and \<open>1\<close> otherwise; it is \<open>1\<close> as
  well when an exception escapes the run. The count of the fourth check is the number
  of completions of the run recorded under those three kinds.
\<close>

theorem exit_code_checks:
  assumes "length (latencies m) < 2 ^ 32"
  shows "(exit_code (Inr m) = 0 \<longleftrightarrow>
            js_gt (successRate m) (Num 99) \<and> percentile_of (latencies m) 95 < 500
            \<and> percentile_of (latencies m) 99 < 1000 \<and> connectionErrors m = 0)
       \<and> (exit_code (Inr m) = 0 \<or> exit_code (Inr m) = 1)
       \<and> exit_code (Inl e) = 1
       \<and> connectionErrors (record_all cs) =
           length (filter (\<lambda>c. error_kind c \<in> {Some ''ECONNREFUSED'', Some ''ECONNRESET'',
                                                 Some ''TIMEOUT''}) cs)"
proof -
  note c = record_all_connectionErrors[of cs]
  have e: "exit_code (Inl e) = 1" by (simp add: exit_code_def runLoadTest_def)
  show ?thesis
    using c e by (simp add: exit_code_def runLoadTest_def report_exit[OF assms])
qed

theorem exit_code_checks_witness:
  "exit_code (Inr (record_all [ResponseEnd 200 12, ResponseEnd 200 499])) = 0
   \<and> exit_code (Inr (record_all [ResponseEnd 200 12, RequestTimeout,
        RequestError (Some ''ECONNRESET'') ''socket hang up''])) = 1"
proof -
  let ?a = "record_all [ResponseEnd 200 12, ResponseEnd 200 499]"
  let ?b = "record_all [ResponseEnd 200 12, RequestTimeout,
        RequestError (Some ''ECONNRESET'') ''socket hang up'']"
  have la: "latencies ?a = [12, 499]" and lb: "latencies ?b = [12]"
    by (simp_all add: record_all_def on_end_counts on_timeout_counts on_error_counts
        metrics_init_def)
  have ra: "successRate ?a = Num 100" by code_simp
  have ca: "connectionErrors ?a = 0" and cb: "connectionErrors ?b = 2"
    using exit_code_checks[of metrics_init TypeError "[ResponseEnd 200 12, ResponseEnd 200 499]"]
      exit_code_checks[of metrics_init TypeError "[ResponseEnd 200 12, RequestTimeout,
        RequestError (Some ''ECONNRESET'') ''socket hang up'']"]
    by (simp_all add: metrics_init_def errorType_def)
  have pa: "percentile_of [12, 499] 95 = 499" "percentile_of [12, 499] 99 = 499"
    by code_simp+
  have "exit_code (Inr ?a) = 0"
    using exit_code_checks[of ?a TypeError "[]"] by (simp add: la ra ca pa js_gt_def)
  moreover have "exit_code (Inr ?b) = 1"
    using exit_code_checks[of ?b TypeError "[]"] by (auto simp add: lb cb)
  ultimately show ?thesis by blast
qed

section \<open>A run without requests\<close>

text \<open>
  Claim C10. When no request was recorded (\<open>totalRequests\<close> is \<open>0\<close> at completion), the
  success rate is \<open>0 / 0 * 100\<close>, which is \<open>NaN\<close>; the check \<open>Success Rate > 99%\<close> fails,
  because a comparison with \<open>NaN\<close> is false; the percentile function returns \<open>0\<close> for
  the empty sample sequence, so the P95 and P99 checks pass, and so does the fourth;
  the exit code is \<open>1\<close>.
\<close>

theorem no_requests_exit_1:
  assumes "totalRequests (record_all cs) = 0"
  shows "successRate (record_all cs) = NaN
       \<and> \<not> js_gt (successRate (record_all cs)) (Num 99)
       \<and> calculatePercentile (sort (latencies (record_all cs))) (Num 95) = Some 0
       \<and> calculatePercentile (sort (latencies (record_all cs))) (Num 99) = Some 0
       \<and> map passed (checks (record_all cs) 0 0) = [False, True, True, True]
       \<and> exit_code (Inr (record_all cs)) = 1"
proof -
  have "cs = []" using assms by (simp add: record_all_totalRequests)
  then have m: "record_all cs = metrics_init" by (simp add: record_all_def)
  have s: "successRate metrics_init = NaN"
    by (simp add: successRate_def metrics_init_def)
  have l: "latencies metrics_init = []" by (simp add: metrics_init_def)
  have c: "connectionErrors metrics_init = 0"
    by (simp add: connectionErrors_def metrics_init_def or0_def)
  have p: "calculatePercentile [] v = Some 0" for v
    by (simp add: calculatePercentile_def)
  have k: "map passed (checks metrics_init 0 0) = [False, True, True, True]"
    by (simp add: checks_def s c js_gt_def)
  have r: "report metrics_init = Inr 1"
    by (simp add: report_def l p allPassed_checks s js_gt_def)
  show ?thesis
    unfolding m by (simp add: s l p k js_gt_def exit_code_def runLoadTest_def r)
qed

theorem no_requests_exit_1_witness:
  "totalRequests (record_all []) = 0 \<and> exit_code (Inr (record_all [])) = 1"
  using no_requests_exit_1[of "[]"] by (simp add: record_all_totalRequests)

section \<open>The request handler\<close>

text \<open>
  Claim C3. Handling a request for \<open>/health\<close> or for \<open>/metrics\<close> leaves \<open>requestCount\<close> (and
  the whole metrics object) as it was; a request for any other URL adds exactly one to
  \<open>requestCount\<close>. The handler compares the whole of \<open>req.url\<close> and does not look at the
  method.
\<close>

theorem requestCount_routes:
  "requestCount (snd (handler toString pl e req m)) =
     (if url req = ''/health'' \<or> url req = ''/metrics'' then requestCount m
      else requestCount m + 1)
   \<and> snd (handler toString pl e (req\<lparr>url := ''/health''\<rparr>) m) = m
   \<and> snd (handler toString pl e (req\<lparr>url := ''/metrics''\<rparr>) m) = m"
  by (simp add: handler_def Let_def)

lemma includes_str_iff: "includes_str s pat \<longleftrightarrow> (\<exists>ps ss. s = ps @ pat @ ss)"
proof (induction s)
  case Nil
  then show ?case by auto
next
  case (Cons c cs)
  have "take (length pat) (c # cs) = pat \<longleftrightarrow> (\<exists>ss. c # cs = pat @ ss)"
    by (metis append_eq_conv_conj append_take_drop_id)
  moreover have "(\<exists>ps ss. c # cs = ps @ pat @ ss) \<longleftrightarrow>
        (\<exists>ss. c # cs = pat @ ss) \<or> (\<exists>ps ss. cs = ps @ pat @ ss)"
  proof
    assume "\<exists>ps ss. c # cs = ps @ pat @ ss"
    then obtain ps ss where e: "c # cs = ps @ pat @ ss" by blast
    show "(\<exists>ss. c # cs = pat @ ss) \<or> (\<exists>ps ss. cs = ps @ pat @ ss)"
    proof (cases ps)
      case Nil
      then show ?thesis using e by auto
    next
      case (Cons p ps')
      then have "cs = ps' @ pat @ ss" using e by simp
      then show ?thesis by blast
    qed
  next
    assume "(\<exists>ss. c # cs = pat @ ss) \<or> (\<exists>ps ss. cs = ps @ pat @ ss)"
    then show "\<exists>ps ss. c # cs = ps @ pat @ ss"
    proof
      assume "\<exists>ss. c # cs = pat @ ss"
      then obtain ss where "c # cs = [] @ pat @ ss" by auto
      then show ?thesis by blast
    next
      assume "\<exists>ps ss. cs = ps @ pat @ ss"
      then obtain ps ss where "c # cs = (c # ps) @ pat @ ss" by auto
      then show ?thesis by blast
    qed
  qed
  ultimately show ?case using Cons.IH by simp
qed

text \<open>
  Claim C5. For a request to any URL other than \<open>/health\<close> and \<open>/metrics\<close>: when the
  \<open>Accept-Encoding\<close> header contains the text \<open>gzip\<close>, the body is the compressed buffer,
  \<open>Content-Encoding\<close> is \<open>gzip\<close> and \<open>Content-Length\<close> is the length of the compressed
  buffer; otherwise (also when the header is absent) the body is the raw buffer, there
  is no \<open>Content-Encoding\<close> and \<open>Content-Length\<close> is the length of the raw buffer.
\<close>

theorem page_encoding:
  assumes "url req \<noteq> ''/health''" and "url req \<noteq> ''/metrics''"
    and "res = fst (handler toString pl e req m)"
    and "acceptEncoding = (case accept_encoding req of None \<Rightarrow> '''' | Some v \<Rightarrow> v)"
  shows "if \<exists>ps ss. acceptEncoding = ps @ ''gzip'' @ ss
         then body res = Buffer (compressedHtml pl)
              \<and> headers res ''Content-Encoding'' = Some (HString ''gzip'')
              \<and> headers res ''Content-Length'' = Some (HNumber (length (compressedHtml pl)))
         else body res = Buffer (htmlBuffer pl)
              \<and> headers res ''Content-Encoding'' = None
              \<and> headers res ''Content-Length'' = Some (HNumber (length (htmlBuffer pl)))"
proof -
  have c: "(\<exists>ps ss. acceptEncoding = ps @ ''gzip'' @ ss) = includes_str acceptEncoding ''gzip''"
    by (rule includes_str_iff[symmetric])
  show ?thesis
    unfolding c using assms by (simp add: handler_def Let_def page_def)
qed

theorem page_encoding_witness:
  "body (fst (handler (\<lambda>x. []) \<lparr>htmlBuffer = ''<html></html>'', compressedHtml = ''xyz''\<rparr>
            \<lparr>pid = 7, now = 1000, hr_start = 0, hr_end = 5\<rparr>
            \<lparr>url = ''/'', accept_encoding = Some ''gzip, deflate''\<rparr>
            \<lparr>requestCount = 0, totalResponseTime = Num 0, startTime = 0, errors_srv = 0\<rparr>))
     = Buffer ''xyz''
   \<and> headers (fst (handler (\<lambda>x. []) \<lparr>htmlBuffer = ''<html></html>'', compressedHtml = ''xyz''\<rparr>
            \<lparr>pid = 7, now = 1000, hr_start = 0, hr_end = 5\<rparr>
            \<lparr>url = ''/'', accept_encoding = Some ''gzip, deflate''\<rparr>
            \<lparr>requestCount = 0, totalResponseTime = Num 0, startTime = 0, errors_srv = 0\<rparr>))
       ''Content-Length'' = Some (HNumber 3)
   \<and> body (fst (handler (\<lambda>x. []) \<lparr>htmlBuffer = ''<html></html>'', compressedHtml = ''xyz''\<rparr>
            \<lparr>pid = 7, now = 1000, hr_start = 0, hr_end = 5\<rparr>
            \<lparr>url = ''/'', accept_encoding = None\<rparr>
            \<lparr>requestCount = 0, totalResponseTime = Num 0, startTime = 0, errors_srv = 0\<rparr>))
     = Buffer ''<html></html>''
   \<and> headers (fst (handler (\<lambda>x. []) \<lparr>htmlBuffer = ''<html></html>'', compressedHtml = ''xyz''\<rparr>
            \<lparr>pid = 7, now = 1000, hr_start = 0, hr_end = 5\<rparr>
            \<lparr>url = ''/'', accept_encoding = None\<rparr>
            \<lparr>requestCount = 0, totalResponseTime = Num 0, startTime = 0, errors_srv = 0\<rparr>))
       ''Content-Length'' = Some (HNumber 13)"
proof -
  let ?pl = "\<lparr>htmlBuffer = ''<html></html>'', compressedHtml = ''xyz''\<rparr>"
  let ?e = "\<lparr>pid = 7, now = 1000, hr_start = 0, hr_end = 5\<rparr>"
  let ?m = "\<lparr>requestCount = 0, totalResponseTime = Num 0, startTime = 0, errors_srv = 0\<rparr>"
  have g: "\<exists>ps ss. ''gzip, deflate'' = ps @ ''gzip'' @ ss"
    by (rule exI[of _ "[]"], rule exI[of _ "'', deflate''"]) simp
  have n: "\<not> (\<exists>ps ss. [] = ps @ ''gzip'' @ ss)" by simp
  show ?thesis
    using page_encoding[of "\<lparr>url = ''/'', accept_encoding = Some ''gzip, deflate''\<rparr>" _
        "\<lambda>x. []" ?pl ?e ?m "''gzip, deflate''", OF _ _ refl]
      page_encoding[of "\<lparr>url = ''/'', accept_encoding = None\<rparr>" _ "\<lambda>x. []" ?pl ?e ?m "[]",
        OF _ _ refl]
      g n
    by simp
qed

section \<open>The primary process restarts workers\<close>

text \<open>The worker ids are distinct and below the next id.\<close>

lemma fork_workers:
  "workers (fork p) = workers p @ [next_id p]" "next_id (fork p) = next_id p + 1"
  by (simp_all add: fork_def)

lemma fork_pow:
  "length (workers ((fork ^^ n) p)) = length (workers p) + n
   \<and> (distinct (workers p) \<and> (\<forall>w\<in>set (workers p). w < next_id p) \<longrightarrow>
        distinct (workers ((fork ^^ n) p))
        \<and> (\<forall>w\<in>set (workers ((fork ^^ n) p)). w < next_id ((fork ^^ n) p)))"
proof (induction n)
  case 0
  then show ?case by simp
next
  case (Suc n)
  then show ?case by (auto simp add: fork_workers less_Suc_eq)
qed

lemma start_workers:
  "length (workers (start N)) = N"
  "distinct (workers (start N))"
  "\<forall>w\<in>set (workers (start N)). w < next_id (start N)"
  using fork_pow[of N "\<lparr>workers = [], next_id = 1\<rparr>"] by (simp_all add: start_def)

lemma step_exit:
  "step (WorkerExit w) (Running p) =
     ([Fork (next_id p)], Running (fork (p\<lparr>workers := removeAll w (workers p)\<rparr>)))"
  by (simp add: on_exit_def)

lemma length_removeAll_distinct:
  "distinct ws \<Longrightarrow> w \<in> set ws \<Longrightarrow> length (removeAll w ws) + 1 = length ws"
  by (induction ws) auto

lemma replaced_workers:
  assumes "distinct (workers p)" and "\<forall>v\<in>set (workers p). v < next_id p" and "w \<in> set (workers p)"
  defines "p' \<equiv> fork (p\<lparr>workers := removeAll w (workers p)\<rparr>)"
  shows "length (workers p') = length (workers p)"
    and "distinct (workers p')"
    and "\<forall>v\<in>set (workers p'). v < next_id p'"
proof -
  show "length (workers p') = length (workers p)"
    using length_removeAll_distinct[OF assms(1,3)] by (simp add: p'_def fork_workers)
  show "distinct (workers p')"
    using assms(1,2) by (auto simp add: p'_def fork_workers distinct_removeAll)
  show "\<forall>v\<in>set (workers p'). v < next_id p'"
    using assms(2) by (auto simp add: p'_def fork_workers less_Suc_eq)
qed

lemma run_Exited: "run evs (Exited c) = ([], Exited c)"
  by (induction evs) simp_all

lemma run_keeps_workers:
  assumes "feasible evs (Running p0)" and "snd (run evs (Running p0)) = Running p"
    and "distinct (workers p0)" and "\<forall>v\<in>set (workers p0). v < next_id p0"
  shows "length (workers p) = length (workers p0) \<and> distinct (workers p)
       \<and> (\<forall>v\<in>set (workers p). v < next_id p)"
  using assms
proof (induction evs arbitrary: p0)
  case Nil
  then show ?case by simp
next
  case (Cons ev evs)
  show ?case
  proof (cases ev)
    case (WorkerExit w)
    define p1 where "p1 = fork (p0\<lparr>workers := removeAll w (workers p0)\<rparr>)"
    have s: "step ev (Running p0) = ([Fork (next_id p0)], Running p1)"
      unfolding WorkerExit p1_def by (rule step_exit)
    have w: "w \<in> set (workers p0)" using Cons.prems(1) by (simp add: WorkerExit)
    have f: "feasible evs (Running p1)" using Cons.prems(1) s by simp
    have r: "snd (run evs (Running p1)) = Running p"
      using Cons.prems(2) s by (simp add: split_beta)
    note k = replaced_workers[OF Cons.prems(3,4) w, folded p1_def]
    show ?thesis using Cons.IH[OF f r k(2,3)] k(1) by simp
  next
    case SIGTERM
    have "snd (run (ev # evs) (Running p0)) = Exited 0"
      by (simp add: SIGTERM on_SIGTERM_def run_Exited)
    then show ?thesis using Cons.prems(2) by simp
  qed
qed

text \<open>
  Claim C8. Take the primary after any events that can happen since it forked its \<open>N\<close>
  workers, still running: \<open>N\<close> workers are alive. When one of them exits, the primary
  forks exactly one worker and \<open>N\<close> workers are alive again. When the primary is asked
  to shut down, it signals the workers and exits; it forks nothing then and nothing
  afterwards, whichever workers exit: a worker that exits on the primary's shutdown
  request is not replaced.
\<close>

theorem restart_one_for_one:
  assumes "feasible evs (Running (start N))"
    and "snd (run evs (Running (start N))) = Running p"
    and "w \<in> set (workers p)"
  shows "live (Running p) = N
       \<and> fst (step (WorkerExit w) (Running p)) = [Fork (next_id p)]
       \<and> live (snd (step (WorkerExit w) (Running p))) = N
       \<and> step SIGTERM (Running p) =
           (map (\<lambda>w. Kill w ''SIGTERM'') (workers p) @ [Exit 0], Exited 0)
       \<and> filter is_Fork (fst (step SIGTERM (Running p))) = []
       \<and> fst (run later (snd (step SIGTERM (Running p)))) = []"
proof -
  have k: "length (workers p) = N" "distinct (workers p)" "\<forall>v\<in>set (workers p). v < next_id p"
    using run_keeps_workers[OF assms(1,2) start_workers(2,3)] start_workers(1) by simp_all
  have a: "live (snd (step (WorkerExit w) (Running p))) = N"
    using replaced_workers(1)[OF k(2,3) assms(3)] k(1)
    by (simp add: step_exit live_def del: step.simps(1))
  have b: "filter is_Fork (map (\<lambda>w. Kill w ''SIGTERM'') (workers p) @ [Exit 0]) = []"
    by (induction "workers p") (simp_all add: is_Fork_def filter_empty_conv)
  show ?thesis
    using k(1) a b
    by (simp add: step_exit live_def on_SIGTERM_def run_Exited del: step.simps(1))
qed

theorem restart_one_for_one_witness:
  "live (Running \<lparr>workers = [1, 3], next_id = 4\<rparr>) = 2
   \<and> step (WorkerExit 3) (Running \<lparr>workers = [1, 3], next_id = 4\<rparr>)
       = ([Fork 4], Running \<lparr>workers = [1, 4], next_id = 5\<rparr>)
   \<and> fst (run [WorkerExit 1, WorkerExit 4]
            (snd (step SIGTERM (Running \<lparr>workers = [1, 3], next_id = 4\<rparr>)))) = []"
proof -
  have s: "start 2 = \<lparr>workers = [1, 2], next_id = 3\<rparr>"
    by (simp add: start_def numeral_2_eq_2 fork_def)
  have r: "snd (run [WorkerExit 2] (Running (start 2))) = Running \<lparr>workers = [1, 3], next_id = 4\<rparr>"
    by (simp add: s on_exit_def fork_def)
  have f: "feasible [WorkerExit 2] (Running (start 2))" by (simp add: s)
  have e: "step (WorkerExit 3) (Running \<lparr>workers = [1, 3], next_id = 4\<rparr>)
       = ([Fork 4], Running \<lparr>workers = [1, 4], next_id = 5\<rparr>)"
    by (simp add: on_exit_def fork_def)
  show ?thesis
    using restart_one_for_one[OF f r, of 3 "[WorkerExit 1, WorkerExit 4]"] e by simp
qed

section \<open>Decimal texts\<close>

lemma digit_cases: "d < 10 \<Longrightarrow> d \<in> {0, 1, 2, 3, 4, 5, 6, 7, 8, 9 :: nat}"
  by auto

lemma digit_value_digit_char: "d < 10 \<Longrightarrow> digit_value (digit_char d) = Some d"
  using digit_cases[of d] by (auto simp add: digit_char_def digit_value_def)

lemma digit_char_not_mark:
  "d < 10 \<Longrightarrow> digit_char d \<noteq> CHR ''.'' \<and> digit_char d \<noteq> CHR ''-''"
  using digit_cases[of d] by (auto simp add: digit_char_def)

lemma digits_value_append:
  "digits_value (s @ t) acc =
     (case digits_value s acc of None \<Rightarrow> None | Some a \<Rightarrow> digits_value t a)"
  by (induction s arbitrary: acc) (auto split: option.splits)

lemma digits_value_nat_toString:
  "digits_value (nat_toString n) acc = Some (acc * 10 ^ length (nat_toString n) + n)"
proof (induction n arbitrary: acc rule: nat_toString.induct)
  case (1 n)
  show ?case
  proof (cases "n < 10")
    case True
    then show ?thesis
      by (subst (1 2) nat_toString.simps) (simp add: digit_value_digit_char)
  next
    case False
    have m: "n mod 10 < 10" by simp
    show ?thesis
      using False
      by (subst (1 2) nat_toString.simps)
        (simp add: digits_value_append 1 digit_value_digit_char[OF m] algebra_simps)
  qed
qed

lemma nat_toString_chars:
  "nat_toString n \<noteq> [] \<and> (\<forall>c\<in>set (nat_toString n). c \<noteq> CHR ''.'' \<and> c \<noteq> CHR ''-'')"
proof (induction n rule: nat_toString.induct)
  case (1 n)
  show ?case
  proof (cases "n < 10")
    case True
    then show ?thesis
      by (subst (1 2) nat_toString.simps) (simp add: digit_char_not_mark)
  next
    case False
    have m: "n mod 10 < 10" by simp
    show ?thesis
      using False 1 digit_char_not_mark[OF m]
      by (subst (1 2) nat_toString.simps) simp
  qed
qed

lemma nat_toString_small: "n < 10 \<Longrightarrow> nat_toString n = [digit_char n]"
  by (subst nat_toString.simps) simp

lemma nat_toString_step:
  "10 \<le> n \<Longrightarrow> nat_toString n = nat_toString (n div 10) @ [digit_char (n mod 10)]"
  by (subst nat_toString.simps) simp

lemma nat_toString_two:
  assumes "100 \<le> n"
  shows "nat_toString n =
           nat_toString (n div 100) @ [digit_char (n div 10 mod 10), digit_char (n mod 10)]"
proof -
  have a: "10 \<le> n" and b: "10 \<le> n div 10" using assms by simp_all
  have c: "n div 10 div 10 = n div 100" by (simp add: div_mult2_eq[symmetric])
  show ?thesis
    by (simp add: nat_toString_step[OF a] nat_toString_step[OF b] c)
qed

lemma digit_char_0: "digit_char 0 = CHR ''0''"
  by (simp add: digit_char_def)

lemma toFixed_split:
  fixes n :: nat
  defines "m0 \<equiv> nat_toString n"
  defines "m \<equiv> (if length m0 \<le> 2 then replicate (3 - length m0) CHR ''0'' @ m0 else m0)"
  shows "take (length m - 2) m @ ''.'' @ drop (length m - 2) m =
           nat_toString (n div 100) @ ''.'' @ [digit_char (n div 10 mod 10), digit_char (n mod 10)]"
proof -
  consider "n < 10" | "10 \<le> n" "n < 100" | "100 \<le> n" by linarith
  then show ?thesis
  proof cases
    case 1
    then have "m0 = [digit_char n]" by (simp add: m0_def nat_toString_small)
    then have "m = [CHR ''0'', CHR ''0'', digit_char n]"
      by (simp add: m_def numeral_2_eq_2)
    then show ?thesis using 1 by (simp add: nat_toString_small digit_char_0)
  next
    case 2
    have "n div 10 < 10" using 2(2) by simp
    then have "m0 = [digit_char (n div 10), digit_char (n mod 10)]"
      by (simp add: m0_def nat_toString_step[OF 2(1)] nat_toString_small)
    then have "m = [CHR ''0'', digit_char (n div 10), digit_char (n mod 10)]"
      by (simp add: m_def)
    then show ?thesis using 2 by (simp add: nat_toString_small digit_char_0)
  next
    case 3
    have e: "m0 = nat_toString (n div 100) @ [digit_char (n div 10 mod 10), digit_char (n mod 10)]"
      unfolding m0_def by (rule nat_toString_two[OF 3])
    have "nat_toString (n div 100) \<noteq> []" using nat_toString_chars by blast
    then have "0 < length (nat_toString (n div 100))" by simp
    then have "m = m0" by (simp add: m_def e)
    then show ?thesis by (simp add: e)
  qed
qed

lemma unsigned_decimal_value_fixed:
  assumes "b < 10" and "c < 10"
  shows "unsigned_decimal_value (nat_toString a @ ''.'' @ [digit_char b, digit_char c]) =
           Some (rat_of_nat a + rat_of_nat (10 * b + c) / 100)"
proof -
  let ?s = "nat_toString a @ ''.'' @ [digit_char b, digit_char c]"
  have ne: "nat_toString a \<noteq> []" and nd: "\<forall>x\<in>set (nat_toString a). x \<noteq> CHR ''.''"
    using nat_toString_chars[of a] by auto
  have ip: "takeWhile (\<lambda>c. c \<noteq> CHR ''.'') ?s = nat_toString a"
    using nd by (simp add: takeWhile_append2)
  have fp: "drop (length (nat_toString a) + 1) ?s = [digit_char b, digit_char c]"
    by simp
  have iv: "digits_value (nat_toString a) 0 = Some a"
    by (simp add: digits_value_nat_toString)
  have fv: "digits_value [digit_char b, digit_char c] 0 = Some (10 * b + c)"
    by (simp add: digit_value_digit_char assms)
  show ?thesis
    unfolding unsigned_decimal_value_def Let_def ip fp iv fv using ne by simp
qed

lemma hundredths: "rat_of_nat (n div 100) + rat_of_nat (10 * (n div 10 mod 10) + n mod 10) / 100
    = rat_of_nat n / 100"
proof -
  define q where "q = n div 100"
  define t where "t = n div 10"
  define d1 where "d1 = t mod 10"
  define d0 where "d0 = n mod 10"
  have a: "n = 10 * t + d0" by (simp add: t_def d0_def)
  have "t div 10 = q" by (simp add: t_def q_def div_mult2_eq[symmetric])
  then have b: "t = 10 * q + d1" using div_mult_mod_eq[of t 10] by (simp add: d1_def)
  have "n = 100 * q + (10 * d1 + d0)" unfolding a b by simp
  then have "rat_of_nat n = 100 * rat_of_nat q + rat_of_nat (10 * d1 + d0)"
    by (simp only: of_nat_add of_nat_mult of_nat_numeral)
  then show ?thesis
    unfolding q_def[symmetric] t_def[symmetric] d1_def[symmetric] d0_def[symmetric]
    by (simp add: field_simps)
qed

lemma toFixed2_value:
  assumes "\<bar>x\<bar> < 10 ^ 21"
  shows "decimal_value (toFixed2 toString (Num x)) = Some (round2 x)"
proof -
  define n where "n = nat \<lfloor>\<bar>x\<bar> * 100 + 1 / 2\<rfloor>"
  define t where "t = nat_toString (n div 100) @ ''.'' @ [digit_char (n div 10 mod 10), digit_char (n mod 10)]"
  have tf: "toFixed2 toString (Num x) = (if x < 0 then ''-'' else '''') @ t"
    using assms toFixed_split[of n]
    by (simp add: toFixed2_def Let_def n_def[symmetric] t_def del: replicate.simps)
  have d: "n div 10 mod 10 < 10" "n mod 10 < 10" by simp_all
  have uv: "unsigned_decimal_value t = Some (rat_of_nat n / 100)"
    by (simp only: t_def unsigned_decimal_value_fixed[OF d] hundredths)
  have "0 \<le> \<lfloor>\<bar>x\<bar> * 100 + 1 / 2\<rfloor>" by simp
  then have nn: "rat_of_nat n = rat_of_int \<lfloor>\<bar>x\<bar> * 100 + 1 / 2\<rfloor>"
    by (simp add: n_def)
  obtain c cs where t0: "t = c # cs" "c \<noteq> CHR ''-''"
    using nat_toString_chars[of "n div 100"]
    by (cases "nat_toString (n div 100)") (auto simp add: t_def)
  show ?thesis
  proof (cases "x < 0")
    case True
    have "toFixed2 toString (Num x) = CHR ''-'' # t" using True by (simp add: tf)
    then have "decimal_value (toFixed2 toString (Num x)) = Some (- (rat_of_nat n / 100))"
      by (simp add: decimal_value_def uv)
    moreover have "round2 x = - (rat_of_nat n / 100)"
      using True by (simp add: round2_def nn)
    ultimately show ?thesis by simp
  next
    case False
    have "toFixed2 toString (Num x) = c # cs" using False t0(1) by (simp add: tf)
    then have "decimal_value (toFixed2 toString (Num x)) = unsigned_decimal_value t"
      using t0 by (simp add: decimal_value_def)
    moreover have "round2 x = rat_of_nat n / 100"
      using False by (simp add: round2_def nn)
    ultimately show ?thesis using uv by simp
  qed
qed

lemma round2_near: "\<bar>round2 x - x\<bar> \<le> 1 / 200"
proof -
  define a where "a = \<bar>x\<bar> * 100 + 1 / 2"
  define r where "r = rat_of_int \<lfloor>a\<rfloor>"
  have f: "r \<le> a" "a < r + 1" unfolding r_def by linarith+
  show ?thesis
  proof (cases "x < 0")
    case True
    have e: "round2 x = - (r / 100)"
      using True by (simp add: round2_def a_def r_def)
    have "a = - x * 100 + 1 / 2" using True by (simp add: a_def)
    then have "- (1 / 200) \<le> - (r / 100) - x" "- (r / 100) - x \<le> 1 / 200"
      using f by linarith+
    then show ?thesis unfolding e by linarith
  next
    case False
    have e: "round2 x = r / 100"
      using False by (simp add: round2_def a_def r_def)
    have "a = x * 100 + 1 / 2" using False by (simp add: a_def)
    then have "- (1 / 200) \<le> r / 100 - x" "r / 100 - x \<le> 1 / 200"
      using f by linarith+
    then show ?thesis unfolding e by linarith
  qed
qed

section \<open>The average response time of the health document\<close>

lemma health_field:
  "field (fst (handler toString pl e (req\<lparr>url := ''/health''\<rparr>) m)) ''avg_response_time_ms''
     = Some (avgResponseTime toString m)"
  by (simp add: handler_def health_def field_def Let_def)

text \<open>
  Claim C2. In the response to \<open>/health\<close>, the field \<open>avg_response_time_ms\<close> is the number
  \<open>0\<close> when \<open>requestCount\<close> is \<open>0\<close>. When \<open>requestCount\<close> is positive it is the text that
  \<open>toFixed(2)\<close> makes of the quotient \<open>totalResponseTime / requestCount\<close>; for a finite
  total and a quotient below \<open>10 ^ 21\<close> in magnitude that text is a decimal numeral and
  denotes the quotient rounded to two decimal places, at most \<open>0.005\<close> away from it.
\<close>

theorem health_avg_response_time:
  assumes "url req = ''/health''" and "res = fst (handler toString pl e req m)"
  shows "(requestCount m = 0 \<longrightarrow> field res ''avg_response_time_ms'' = Some (JNumber (Num 0)))
       \<and> (0 < requestCount m \<longrightarrow>
            field res ''avg_response_time_ms'' =
              Some (JString (toFixed2 toString
                      (js_div (totalResponseTime m) (Num (rat_of_nat (requestCount m)))))))
       \<and> (\<forall>t x. 0 < requestCount m \<and> totalResponseTime m = Num t
                \<and> round_double (t / rat_of_nat (requestCount m)) = Num x \<and> \<bar>x\<bar> < 10 ^ 21 \<longrightarrow>
            (\<exists>s. field res ''avg_response_time_ms'' = Some (JString s)
                 \<and> decimal_value s = Some (round2 x) \<and> \<bar>round2 x - x\<bar> \<le> 1 / 200))"
proof -
  have r: "req = req\<lparr>url := ''/health''\<rparr>" using assms(1) by simp
  have f: "field res ''avg_response_time_ms'' = Some (avgResponseTime toString m)"
    unfolding assms(2) by (subst r) (rule health_field)
  have a: "requestCount m = 0 \<longrightarrow> field res ''avg_response_time_ms'' = Some (JNumber (Num 0))"
    by (simp add: f avgResponseTime_def)
  have b: "0 < requestCount m \<longrightarrow>
            field res ''avg_response_time_ms'' =
              Some (JString (toFixed2 toString
                      (js_div (totalResponseTime m) (Num (rat_of_nat (requestCount m))))))"
    by (simp add: f avgResponseTime_def)
  have c: "\<exists>s. field res ''avg_response_time_ms'' = Some (JString s)
                 \<and> decimal_value s = Some (round2 x) \<and> \<bar>round2 x - x\<bar> \<le> 1 / 200"
    if h: "0 < requestCount m" "totalResponseTime m = Num t"
      "round_double (t / rat_of_nat (requestCount m)) = Num x" "\<bar>x\<bar> < 10 ^ 21" for t x
  proof -
    have "js_div (totalResponseTime m) (Num (rat_of_nat (requestCount m))) = Num x"
      using h(1,2,3) by simp
    then have "field res ''avg_response_time_ms'' = Some (JString (toFixed2 toString (Num x)))"
      using b h(1) by simp
    then show ?thesis using toFixed2_value[OF h(4)] round2_near by blast
  qed
  show ?thesis using a b c by blast
qed

text \<open>
  The quotient that is rounded is the binary64 one. \<open>201 / 200\<close> is \<open>1.005\<close> exactly but
  just below it as a JavaScript number, so its text is \<open>1.00\<close>.
\<close>

lemma toFixed2_of_binary_quotient: "toFixed2 (\<lambda>x. []) (js_div (Num 201) (Num 200)) = ''1.00''"
  by code_simp

lemma third_fixed: "toFixed2 (\<lambda>x. []) (js_div (Num 1) (Num 3)) = ''0.33''"
  by code_simp

theorem health_avg_response_time_witness:
  "field (fst (handler (\<lambda>x. []) \<lparr>htmlBuffer = [], compressedHtml = []\<rparr>
                 \<lparr>pid = 7, now = 1000, hr_start = 0, hr_end = 0\<rparr>
                 \<lparr>url = ''/health'', accept_encoding = None\<rparr>
                 \<lparr>requestCount = 3, totalResponseTime = Num 1, startTime = 0, errors_srv = 0\<rparr>))
     ''avg_response_time_ms'' = Some (JString ''0.33'')
   \<and> field (fst (handler (\<lambda>x. []) \<lparr>htmlBuffer = [], compressedHtml = []\<rparr>
                 \<lparr>pid = 7, now = 1000, hr_start = 0, hr_end = 0\<rparr>
                 \<lparr>url = ''/health'', accept_encoding = None\<rparr>
                 \<lparr>requestCount = 0, totalResponseTime = Num 0, startTime = 0, errors_srv = 0\<rparr>))
     ''avg_response_time_ms'' = Some (JNumber (Num 0))"
proof -
  let ?req = "\<lparr>url = ''/health'', accept_encoding = None\<rparr>"
  let ?pl = "\<lparr>htmlBuffer = [], compressedHtml = []\<rparr>"
  let ?e = "\<lparr>pid = 7, now = 1000, hr_start = 0, hr_end = 0\<rparr>"
  let ?m3 = "\<lparr>requestCount = 3, totalResponseTime = Num 1, startTime = 0, errors_srv = 0\<rparr>"
  let ?m0 = "\<lparr>requestCount = 0, totalResponseTime = Num 0, startTime = 0, errors_srv = 0\<rparr>"
  have u: "url ?req = ''/health''" by simp
  have "field (fst (handler (\<lambda>x. []) ?pl ?e ?req ?m3)) ''avg_response_time_ms''
          = Some (JString (toFixed2 (\<lambda>x. []) (js_div (Num 1) (Num 3))))"
    using health_avg_response_time[of ?req _ "\<lambda>x. []" ?pl ?e ?m3, OF u refl]
    by (simp del: js_div.simps)
  moreover have "field (fst (handler (\<lambda>x. []) ?pl ?e ?req ?m0)) ''avg_response_time_ms''
          = Some (JNumber (Num 0))"
    using health_avg_response_time[of ?req _ "\<lambda>x. []" ?pl ?e ?m0, OF u refl] by simp
  ultimately show ?thesis by (simp only: third_fixed simp_thms)
qed

end
